theory Spec2Isabelle
  imports Complex_Main "HOL-Library.AList"
begin

section \<open>The BPMN token engine of \<^verbatim>\<open>src/bpmn_engine\<close>\<close>

text \<open>
  The engine is embedded the way it is written: classes as records and datatypes, methods
  as functions from the object to the updated object, \<^verbatim>\<open>std::map\<close> as a partial map
  (or an association list where the code iterates over it), pointers to elements as
  indices into the process's element vector.

  A C++ \<^verbatim>\<open>double\<close> is modelled as a binary64 value with correctly rounded
  operations (see below).

  A C++ \<^verbatim>\<open>int\<close> is modelled as an integer. An increment that is not guarded in the
  source overflows at \<^verbatim>\<open>INT_MAX\<close>, which is undefined behaviour; the model
  returns the error \<open>SignedOverflow\<close> there.
\<close>

datatype error =
    SignedOverflow    \<comment> \<open>\<^verbatim>\<open>x++\<close> on an \<^verbatim>\<open>int\<close> equal to \<^verbatim>\<open>INT_MAX\<close>\<close>
  | InvalidPointer    \<comment> \<open>a call through a null (or foreign) \<^verbatim>\<open>BPMNElement*\<close>\<close>
  | StackExhausted    \<comment> \<open>the nested \<^verbatim>\<open>execute\<close> calls exceed the call depth\<close>

definition INT_MAX :: int where
  "INT_MAX = 2147483647"

definition incr :: "int \<Rightarrow> error + int" where
  "incr x = (if x < INT_MAX then Inr (x + 1) else Inl SignedOverflow)"

subsection \<open>binary64 arithmetic\<close>

text \<open>
  A C++ \<^verbatim>\<open>double\<close> is an IEEE 754 binary64 value: a finite number, one of the two
  infinities or a NaN. The two zeros are one value here (they compare equal, and the
  engine never divides by a variable). Every operation computes the exact result and
  rounds it once, to nearest with ties to even.
\<close>

datatype double = Finite real | PlusInf | MinusInf | NaN

text \<open>
  \<open>ulp a\<close> is the spacing of the binary64 numbers around the magnitude \<open>a\<close>: the
  least power of two, from \<open>2^-1074\<close> (the subnormal spacing) up to \<open>2^971\<close>, with
  \<open>a < 2^53 * ulp a\<close>. \<open>rne\<close> rounds to the nearest integer, ties to even.
  \<open>fl\<close> rounds a real number: to a multiple of its \<open>ulp\<close>, or to an infinity when
  the rounded magnitude reaches \<open>2^1024\<close>.
\<close>

definition huge :: real where
  "huge = 2 ^ 1024"

definition min_ulp :: real where
  "min_ulp = 1 / 2 ^ 1074"

fun ulp_search :: "nat \<Rightarrow> real \<Rightarrow> real \<Rightarrow> real" where
  "ulp_search 0 u a = u"
| "ulp_search (Suc n) u a = (if a < 2 ^ 53 * u then u else ulp_search n (2 * u) a)"

definition ulp :: "real \<Rightarrow> real" where
  "ulp a = ulp_search 2045 min_ulp a"

definition rne :: "real \<Rightarrow> int" where
  "rne q =
     (let f = \<lfloor>q\<rfloor>; r = q - of_int f
      in if r < 1 / 2 then f
         else if 1 / 2 < r then f + 1
         else if even f then f else f + 1)"

definition round_mag :: "real \<Rightarrow> real" where
  "round_mag a = of_int (rne (a / ulp a)) * ulp a"

definition fl :: "real \<Rightarrow> double" where
  "fl x =
     (if huge \<le> \<bar>x\<bar> then (if 0 < x then PlusInf else MinusInf)
      else (let r = round_mag \<bar>x\<bar>
            in if huge \<le> r then (if 0 < x then PlusInf else MinusInf)
               else Finite (if 0 \<le> x then r else - r)))"


text \<open>The operations the engine uses: \<^verbatim>\<open>+\<close>, \<^verbatim>\<open>-\<close>, \<^verbatim>\<open>*\<close>, division by the literal
  \<^verbatim>\<open>60.0\<close>, and the comparisons (false whenever a NaN is involved).\<close>

fun dadd :: "double \<Rightarrow> double \<Rightarrow> double" where
  "dadd (Finite x) (Finite y) = fl (x + y)"
| "dadd NaN b = NaN"
| "dadd a NaN = NaN"
| "dadd PlusInf MinusInf = NaN"
| "dadd MinusInf PlusInf = NaN"
| "dadd PlusInf b = PlusInf"
| "dadd a PlusInf = PlusInf"
| "dadd MinusInf b = MinusInf"
| "dadd a MinusInf = MinusInf"

fun dneg :: "double \<Rightarrow> double" where
  "dneg (Finite x) = Finite (- x)"
| "dneg PlusInf = MinusInf"
| "dneg MinusInf = PlusInf"
| "dneg NaN = NaN"

definition dsub :: "double \<Rightarrow> double \<Rightarrow> double" where
  "dsub a b = dadd a (dneg b)"

fun dmul :: "double \<Rightarrow> double \<Rightarrow> double" where
  "dmul (Finite x) (Finite y) = fl (x * y)"
| "dmul NaN b = NaN"
| "dmul a NaN = NaN"
| "dmul (Finite x) PlusInf = (if x = 0 then NaN else if 0 < x then PlusInf else MinusInf)"
| "dmul (Finite x) MinusInf = (if x = 0 then NaN else if 0 < x then MinusInf else PlusInf)"
| "dmul PlusInf (Finite y) = (if y = 0 then NaN else if 0 < y then PlusInf else MinusInf)"
| "dmul MinusInf (Finite y) = (if y = 0 then NaN else if 0 < y then MinusInf else PlusInf)"
| "dmul PlusInf PlusInf = PlusInf"
| "dmul PlusInf MinusInf = MinusInf"
| "dmul MinusInf PlusInf = MinusInf"
| "dmul MinusInf MinusInf = PlusInf"

fun ddiv60 :: "double \<Rightarrow> double" where
  "ddiv60 (Finite x) = fl (x / 60)"
| "ddiv60 PlusInf = PlusInf"
| "ddiv60 MinusInf = MinusInf"
| "ddiv60 NaN = NaN"

fun dle :: "double \<Rightarrow> double \<Rightarrow> bool" where
  "dle (Finite x) (Finite y) = (x \<le> y)"
| "dle NaN b = False"
| "dle a NaN = False"
| "dle MinusInf b = True"
| "dle a PlusInf = True"
| "dle a b = False"

fun dless :: "double \<Rightarrow> double \<Rightarrow> bool" where
  "dless (Finite x) (Finite y) = (x < y)"
| "dless NaN b = False"
| "dless a NaN = False"
| "dless PlusInf b = False"
| "dless a MinusInf = False"
| "dless a b = True"

text \<open>A finite \<open>double\<close> holds a number that rounding leaves alone.\<close>

definition is_double :: "double \<Rightarrow> bool" where
  "is_double a = (case a of Finite x \<Rightarrow> fl x = Finite x | _ \<Rightarrow> True)"

subsection \<open>Token.h\<close>

record Token =
  candidateId :: int
  data :: "string \<rightharpoonup> string"
  startTime :: double
  currentTime :: double
  completed :: bool
  endReason :: string

text \<open>The constructor \<^verbatim>\<open>Token(int id, double startTime)\<close>.\<close>

definition Token_new :: "int \<Rightarrow> double \<Rightarrow> Token" where
  "Token_new i st =
     \<lparr>candidateId = i, data = Map.empty, startTime = st, currentTime = st,
      completed = False, endReason = ''''\<rparr>"

definition getCycleTime :: "Token \<Rightarrow> double" where
  "getCycleTime t = dsub (currentTime t) (startTime t)"

definition setData :: "string \<Rightarrow> string \<Rightarrow> Token \<Rightarrow> Token" where
  "setData key v t = t\<lparr>data := (data t)(key \<mapsto> v)\<rparr>"

text \<open>
  \<^verbatim>\<open>getData\<close> is a \<^verbatim>\<open>const\<close> method built on \<^verbatim>\<open>data.find\<close>: it reads the
  token and returns a string, so it is a function of the token alone. \<open>getData_run\<close>
  is the same call seen as a step on the token, returning the token it leaves behind.
\<close>

definition getData :: "Token \<Rightarrow> string \<Rightarrow> string" where
  "getData t key = (case data t key of Some v \<Rightarrow> v | None \<Rightarrow> '''')"

definition getData_run :: "string \<Rightarrow> Token \<Rightarrow> string \<times> Token" where
  "getData_run key t = (getData t key, t)"

definition advanceTime :: "double \<Rightarrow> Token \<Rightarrow> Token" where
  "advanceTime minutes t = t\<lparr>currentTime := dadd (currentTime t) minutes\<rparr>"

definition complete :: "string \<Rightarrow> Token \<Rightarrow> Token" where
  "complete reason t = t\<lparr>completed := True, endReason := reason\<rparr>"

text \<open>A token's life as the calls made on it after construction.\<close>

datatype TokenOp = SetData string string | AdvanceTime double | Complete string

fun applyTokenOp :: "Token \<Rightarrow> TokenOp \<Rightarrow> Token" where
  "applyTokenOp t (SetData k v) = setData k v t"
| "applyTokenOp t (AdvanceTime m) = advanceTime m t"
| "applyTokenOp t (Complete r) = complete r t"

fun nonNegative :: "TokenOp \<Rightarrow> bool" where
  "nonNegative (AdvanceTime m) = dle (Finite 0) m"
| "nonNegative _ = True"

text \<open>
  What the clock of a token started at the finite time \<open>st\<close> satisfies as long as every
  duration added to it is \<open>\<ge> 0\<close>: it is a number no less than \<open>st\<close>, or \<open>+\<infinity>\<close>.
\<close>

definition clockOk :: "real \<Rightarrow> Token \<Rightarrow> bool" where
  "clockOk st t =
     (startTime t = Finite st
      \<and> (case currentTime t of
            Finite x \<Rightarrow> fl x = Finite x \<and> st \<le> x
          | PlusInf \<Rightarrow> True
          | MinusInf \<Rightarrow> False
          | NaN \<Rightarrow> False))"

subsection \<open>ProcessContext.h\<close>

record Resource =
  name :: string
  totalAvailable :: int
  currentlyUsed :: int
  costPerHour :: double
  totalCost :: double
  totalTimeUsed :: double

definition Resource_new :: "string \<Rightarrow> int \<Rightarrow> double \<Rightarrow> Resource" where
  "Resource_new n available cost =
     \<lparr>name = n, totalAvailable = available, currentlyUsed = 0, costPerHour = cost,
      totalCost = Finite 0, totalTimeUsed = Finite 0\<rparr>"

definition isAvailable :: "Resource \<Rightarrow> bool" where
  "isAvailable r = (currentlyUsed r < totalAvailable r)"

text \<open>
  The increment in \<^verbatim>\<open>acquire\<close> runs only below \<^verbatim>\<open>totalAvailable\<close> and the decrement
  in \<^verbatim>\<open>release\<close> only above zero, so neither can overflow.
\<close>

definition acquire :: "Resource \<Rightarrow> Resource" where
  "acquire r = (if isAvailable r then r\<lparr>currentlyUsed := currentlyUsed r + 1\<rparr> else r)"

definition release :: "Resource \<Rightarrow> Resource" where
  "release r = (if currentlyUsed r > 0 then r\<lparr>currentlyUsed := currentlyUsed r - 1\<rparr> else r)"

definition addUsage :: "double \<Rightarrow> Resource \<Rightarrow> Resource" where
  "addUsage minutes r =
     r\<lparr>totalTimeUsed := dadd (totalTimeUsed r) minutes,
       totalCost := dadd (totalCost r) (dmul (ddiv60 minutes) (costPerHour r))\<rparr>"

datatype ResourceOp = Acquire | Release | AddUsage double

fun applyResourceOp :: "Resource \<Rightarrow> ResourceOp \<Rightarrow> Resource" where
  "applyResourceOp r Acquire = acquire r"
| "applyResourceOp r Release = release r"
| "applyResourceOp r (AddUsage m) = addUsage m r"

text \<open>
  \<^verbatim>\<open>endReasons\<close> is a \<^verbatim>\<open>std::map<std::string, int>\<close> that the reports iterate over;
  it is kept as an association list with one entry per key. \<^verbatim>\<open>resources\<close> is only
  looked up by name.
\<close>

record ProcessContext =
  resources :: "string \<rightharpoonup> Resource"
  currentSimulationTime :: double
  tokensStarted :: int
  tokensCompleted :: int
  endReasons :: "(string \<times> int) list"

definition ProcessContext_new :: ProcessContext where
  "ProcessContext_new =
     \<lparr>resources = Map.empty, currentSimulationTime = Finite 0, tokensStarted = 0,
      tokensCompleted = 0, endReasons = []\<rparr>"

text \<open>\<^verbatim>\<open>resources.emplace\<close> keeps the entry already stored under the name, if any.\<close>

definition addResource :: "string \<Rightarrow> int \<Rightarrow> double \<Rightarrow> ProcessContext \<Rightarrow> ProcessContext" where
  "addResource n quantity cost c =
     (case resources c n of
        Some r \<Rightarrow> c
      | None \<Rightarrow> c\<lparr>resources := (resources c)(n \<mapsto> Resource_new n quantity cost)\<rparr>)"

text \<open>
  \<^verbatim>\<open>getResource\<close> returns a pointer into the map, or \<^verbatim>\<open>nullptr\<close> (\<open>None\<close>). The
  caller's writes through that pointer are \<open>putResource\<close>.
\<close>

definition getResource :: "ProcessContext \<Rightarrow> string \<Rightarrow> Resource option" where
  "getResource c n = resources c n"

definition putResource :: "string \<Rightarrow> Resource \<Rightarrow> ProcessContext \<Rightarrow> ProcessContext" where
  "putResource n r c = c\<lparr>resources := (resources c)(n \<mapsto> r)\<rparr>"

definition setCurrentTime :: "double \<Rightarrow> ProcessContext \<Rightarrow> ProcessContext" where
  "setCurrentTime t c = c\<lparr>currentSimulationTime := t\<rparr>"

definition tokenStarted :: "ProcessContext \<Rightarrow> error + ProcessContext" where
  "tokenStarted c =
     (case incr (tokensStarted c) of
        Inl e \<Rightarrow> Inl e
      | Inr n \<Rightarrow> Inr (c\<lparr>tokensStarted := n\<rparr>))"

text \<open>\<^verbatim>\<open>endReasons[reason]++\<close> creates the entry with value 0 when it is missing.\<close>

definition reasonCount :: "(string \<times> int) list \<Rightarrow> string \<Rightarrow> int" where
  "reasonCount h reason = (case map_of h reason of Some k \<Rightarrow> k | None \<Rightarrow> 0)"

definition tokenCompleted :: "string \<Rightarrow> ProcessContext \<Rightarrow> error + ProcessContext" where
  "tokenCompleted reason c =
     (case incr (tokensCompleted c) of
        Inl e \<Rightarrow> Inl e
      | Inr n \<Rightarrow>
          (case incr (reasonCount (endReasons c) reason) of
             Inl e \<Rightarrow> Inl e
           | Inr k \<Rightarrow>
               Inr (c\<lparr>tokensCompleted := n,
                      endReasons := AList.update reason k (endReasons c)\<rparr>)))"

text \<open>
  The calls that change a context: its own methods, and the calls an activity makes on a
  resource through the pointer \<^verbatim>\<open>getResource\<close> gave it.
\<close>

datatype ContextOp =
    AddResource string int double
  | OnResource string ResourceOp
  | SetCurrentTime double
  | TokenStarted
  | TokenCompleted string

fun applyContextOp :: "ProcessContext \<Rightarrow> ContextOp \<Rightarrow> error + ProcessContext" where
  "applyContextOp c (AddResource n q cost) = Inr (addResource n q cost c)"
| "applyContextOp c (OnResource n x) =
     (case getResource c n of
        None \<Rightarrow> Inr c
      | Some r \<Rightarrow> Inr (putResource n (applyResourceOp r x) c))"
| "applyContextOp c (SetCurrentTime t) = Inr (setCurrentTime t c)"
| "applyContextOp c TokenStarted = tokenStarted c"
| "applyContextOp c (TokenCompleted reason) = tokenCompleted reason c"

fun applyContextOps :: "ProcessContext \<Rightarrow> ContextOp list \<Rightarrow> error + ProcessContext" where
  "applyContextOps c [] = Inr c"
| "applyContextOps c (x # xs) =
     (case applyContextOp c x of
        Inl e \<Rightarrow> Inl e
      | Inr c' \<Rightarrow> applyContextOps c' xs)"

definition histogramTotal :: "ProcessContext \<Rightarrow> int" where
  "histogramTotal c = sum_list (map snd (endReasons c))"

text \<open>
  What the counters of a context satisfy between calls: no negative histogram entry, and
  the histogram adds up to \<open>tokensCompleted\<close>.
\<close>

definition countsInv :: "ProcessContext \<Rightarrow> bool" where
  "countsInv c =
     (list_all (\<lambda>kv. 0 \<le> snd kv) (endReasons c) \<and> histogramTotal c = tokensCompleted c)"

subsection \<open>BPMNElement.h\<close>

text \<open>
  A \<^verbatim>\<open>BPMNElement*\<close> is \<open>None\<close> for \<^verbatim>\<open>nullptr\<close> and \<open>Some i\<close> for the address of
  the \<open>i\<close>-th element of the process's \<^verbatim>\<open>elements\<close> vector. The base class is a
  record, its fields named after their getters; each derived class extends it.
\<close>

type_synonym ptr = "nat option"

record BPMNElement =
  getId :: string
  getName :: string
  getOutgoing :: "ptr list"

definition connectTo :: "ptr \<Rightarrow> 'a BPMNElement_scheme \<Rightarrow> 'a BPMNElement_scheme" where
  "connectTo next e = e\<lparr>getOutgoing := getOutgoing e @ [next]\<rparr>"

text \<open>
  What the engine writes to \<^verbatim>\<open>std::cerr\<close>, one constructor per message, holding the
  values the message prints. \<^verbatim>\<open>std::cout\<close> is not modelled.
\<close>

datatype cerr_line =
    ResourceNotFoundLine string
      \<comment> \<open>\<^verbatim>\<open>ERROR: Recurso '<resourceName>' no encontrado\<close>\<close>
  | NoValidExitLine int string
      \<comment> \<open>\<^verbatim>\<open>[ERROR] Token #<candidateId> sin salida valida en Gateway '<name>'\<close>\<close>
  | NullConditionLine string string
      \<comment> \<open>\<^verbatim>\<open>[ERROR] Condicion nula en regla '<ruleName>' del gateway '<name>'\<close>\<close>
  | NullTargetLine string string
      \<comment> \<open>\<^verbatim>\<open>[ERROR] Nodo destino nulo en regla '<ruleName>' del gateway '<name>'\<close>\<close>
  | NullDefaultLine string
      \<comment> \<open>\<^verbatim>\<open>[ERROR] Nodo por defecto nulo en gateway '<name>'\<close>\<close>

text \<open>
  The state one \<^verbatim>\<open>execute\<close> call works on: the token and the context it receives by
  reference and the error stream. \<open>evaluated\<close> is a ghost trace: the names of the rules
  whose condition has been called, in call order.
\<close>

record ExecState =
  tok :: Token
  ctx :: ProcessContext
  cerr :: "cerr_line list"
  evaluated :: "string list"

type_synonym call = "ptr \<Rightarrow> ExecState \<Rightarrow> error + ExecState"

subsection \<open>Activity.h\<close>

record Event = BPMNElement +
  isStart :: bool

record Activity = BPMNElement +
  processingTime :: double
  resourceName :: string

definition Event_new :: "string \<Rightarrow> string \<Rightarrow> bool \<Rightarrow> Event" where
  "Event_new i n start = \<lparr>getId = i, getName = n, getOutgoing = [], isStart = start\<rparr>"

definition Activity_new :: "string \<Rightarrow> string \<Rightarrow> double \<Rightarrow> string \<Rightarrow> Activity" where
  "Activity_new i n time resource =
     \<lparr>getId = i, getName = n, getOutgoing = [], processingTime = time, resourceName = resource\<rparr>"

text \<open>
  The virtual call \<^verbatim>\<open>outgoing[0]->execute(token, context)\<close> is the parameter \<open>call\<close>
  of each class's \<open>execute\<close>; \<open>execute\<close> below ties the knot.
\<close>

definition Event_execute :: "call \<Rightarrow> Event \<Rightarrow> ExecState \<Rightarrow> error + ExecState" where
  "Event_execute call e s =
     (if isStart e then
        (case tokenStarted (ctx s) of
           Inl err \<Rightarrow> Inl err
         | Inr c \<Rightarrow>
             (if getOutgoing e \<noteq> [] then call (getOutgoing e ! 0) (s\<lparr>ctx := c\<rparr>)
              else Inr (s\<lparr>ctx := c\<rparr>)))
      else
        (case tokenCompleted (getName e) (ctx s) of
           Inl err \<Rightarrow> Inl err
         | Inr c \<Rightarrow> Inr (s\<lparr>ctx := c, tok := complete (getName e) (tok s)\<rparr>)))"

text \<open>
  The loop \<^verbatim>\<open>while (!resource->isAvailable()) { break; }\<close> reads the resource and
  leaves at once, in its first iteration or before it.
\<close>

definition waitLoop :: "Resource \<Rightarrow> Resource" where
  "waitLoop r = (if \<not> isAvailable r then r else r)"

definition Activity_execute :: "call \<Rightarrow> Activity \<Rightarrow> ExecState \<Rightarrow> error + ExecState" where
  "Activity_execute call a s =
     (case getResource (ctx s) (resourceName a) of
        None \<Rightarrow> Inr (s\<lparr>cerr := cerr s @ [ResourceNotFoundLine (resourceName a)]\<rparr>)
      | Some r \<Rightarrow>
          (let r1 = acquire (waitLoop r);
               t1 = advanceTime (processingTime a) (tok s);
               r2 = addUsage (processingTime a) r1;
               r3 = release r2;
               s' = s\<lparr>tok := t1, ctx := putResource (resourceName a) r3 (ctx s)\<rparr>
           in if getOutgoing a \<noteq> [] then call (getOutgoing a ! 0) s' else Inr s'))"

subsection \<open>Gateway.h\<close>

text \<open>
  A rule's condition is a \<^verbatim>\<open>std::function<bool(const Token&)>\<close>: a function of the
  token (a condition that throws is outside the model). An empty \<^verbatim>\<open>std::function\<close>
  handed to \<^verbatim>\<open>addPath\<close> is \<open>None\<close>.
\<close>

record Rule =
  ruleName :: string
  condition :: "Token \<Rightarrow> bool"
  nextNode :: ptr

record ExclusiveGateway = BPMNElement +
  rules :: "Rule list"
  defaultFlow :: ptr

definition ExclusiveGateway_new :: "string \<Rightarrow> string \<Rightarrow> ExclusiveGateway" where
  "ExclusiveGateway_new i n =
     \<lparr>getId = i, getName = n, getOutgoing = [], rules = [], defaultFlow = None\<rparr>"

text \<open>\<open>addPath\<close> and \<open>setDefaultPath\<close> return the gateway and the lines they write.\<close>

definition addPath ::
  "string \<Rightarrow> ptr \<Rightarrow> (Token \<Rightarrow> bool) option \<Rightarrow> ExclusiveGateway
     \<Rightarrow> ExclusiveGateway \<times> cerr_line list" where
  "addPath rn target cond g =
     (case cond of
        None \<Rightarrow> (g, [NullConditionLine rn (getName g)])
      | Some c \<Rightarrow>
          (case target of
             None \<Rightarrow> (g, [NullTargetLine rn (getName g)])
           | Some i \<Rightarrow>
               (connectTo target
                  (g\<lparr>rules := rules g @ [\<lparr>ruleName = rn, condition = c, nextNode = target\<rparr>]\<rparr>),
                [])))"

definition setDefaultPath :: "ptr \<Rightarrow> ExclusiveGateway \<Rightarrow> ExclusiveGateway \<times> cerr_line list" where
  "setDefaultPath target g =
     (case target of
        None \<Rightarrow> (g, [NullDefaultLine (getName g)])
      | Some i \<Rightarrow> (connectTo target (g\<lparr>defaultFlow := target\<rparr>), []))"

text \<open>
  The rule loop of \<^verbatim>\<open>ExclusiveGateway::execute\<close>: the names of the rules whose
  condition it calls, in order, and the rule it leaves the loop with, if any.
\<close>

fun evalRules :: "Rule list \<Rightarrow> Token \<Rightarrow> string list \<times> Rule option" where
  "evalRules [] t = ([], None)"
| "evalRules (r # rs) t =
     (if condition r t then ([ruleName r], Some r)
      else (case evalRules rs t of (ev, m) \<Rightarrow> (ruleName r # ev, m)))"

definition ExclusiveGateway_execute ::
  "call \<Rightarrow> ExclusiveGateway \<Rightarrow> ExecState \<Rightarrow> error + ExecState" where
  "ExclusiveGateway_execute call g s =
     (case evalRules (rules g) (tok s) of
        (ev, m) \<Rightarrow>
          (let s1 = s\<lparr>evaluated := evaluated s @ ev\<rparr> in
           case m of
             Some r \<Rightarrow> call (nextNode r) s1
           | None \<Rightarrow>
               (case defaultFlow g of
                  Some d \<Rightarrow> call (Some d) s1
                | None \<Rightarrow>
                    Inr (s1\<lparr>cerr := cerr s1 @
                           [NoValidExitLine (candidateId (tok s1)) (getName g)]\<rparr>))))"

record ParallelGateway = BPMNElement +
  isDivergence :: bool

definition ParallelGateway_new :: "string \<Rightarrow> string \<Rightarrow> bool \<Rightarrow> ParallelGateway" where
  "ParallelGateway_new i n diverge =
     \<lparr>getId = i, getName = n, getOutgoing = [], isDivergence = diverge\<rparr>"

text \<open>The loop \<^verbatim>\<open>for (auto* next : outgoing) next->execute(token, context)\<close>.\<close>

fun forEach :: "call \<Rightarrow> ptr list \<Rightarrow> ExecState \<Rightarrow> error + ExecState" where
  "forEach call [] s = Inr s"
| "forEach call (p # ps) s =
     (case call p s of
        Inl err \<Rightarrow> Inl err
      | Inr s' \<Rightarrow> forEach call ps s')"

definition ParallelGateway_execute ::
  "call \<Rightarrow> ParallelGateway \<Rightarrow> ExecState \<Rightarrow> error + ExecState" where
  "ParallelGateway_execute call g s =
     (if isDivergence g then forEach call (getOutgoing g) s
      else if getOutgoing g \<noteq> [] then call (getOutgoing g ! 0) s
      else Inr s)"

subsection \<open>Virtual dispatch\<close>

datatype element =
    EventE Event
  | ActivityE Activity
  | ExclusiveGatewayE ExclusiveGateway
  | ParallelGatewayE ParallelGateway

definition deref :: "element list \<Rightarrow> ptr \<Rightarrow> element option" where
  "deref es p =
     (case p of
        None \<Rightarrow> None
      | Some i \<Rightarrow> if i < length es then Some (es ! i) else None)"

text \<open>
  \<open>execute depth es p s\<close> is the call \<^verbatim>\<open>p->execute(token, context)\<close> with at most
  \<open>depth\<close> nested \<^verbatim>\<open>execute\<close> frames available. The source recurses into the next
  element, so a long or cyclic path needs as many frames as it has visits.
\<close>

primrec execute :: "nat \<Rightarrow> element list \<Rightarrow> ptr \<Rightarrow> ExecState \<Rightarrow> error + ExecState" where
  "execute 0 es p s = Inl StackExhausted"
| "execute (Suc depth) es p s =
     (case deref es p of
        None \<Rightarrow> Inl InvalidPointer
      | Some (EventE e) \<Rightarrow> Event_execute (execute depth es) e s
      | Some (ActivityE a) \<Rightarrow> Activity_execute (execute depth es) a s
      | Some (ExclusiveGatewayE g) \<Rightarrow> ExclusiveGateway_execute (execute depth es) g s
      | Some (ParallelGatewayE g) \<Rightarrow> ParallelGateway_execute (execute depth es) g s)"

subsection \<open>Process.h\<close>

record Process =
  elements :: "element list"
  startElement :: ptr
  getContext :: ProcessContext
  tokens :: "Token list"

text \<open>A run of the process: the process and the streams around it.\<close>

record Run =
  process :: Process
  cerr_out :: "cerr_line list"
  evaluated_out :: "string list"

text \<open>
  \<^verbatim>\<open>executeToken(Token& token)\<close> returns the token as the call leaves it, beside
  the run.
\<close>

definition executeToken :: "nat \<Rightarrow> Token \<Rightarrow> Run \<Rightarrow> error + Token \<times> Run" where
  "executeToken depth t w =
     (let P = process w in
      case startElement P of
        None \<Rightarrow> Inr (t, w)
      | Some i \<Rightarrow>
          (case execute depth (elements P) (Some i)
                  \<lparr>tok = t, ctx = getContext P, cerr = cerr_out w,
                   evaluated = evaluated_out w\<rparr> of
             Inl err \<Rightarrow> Inl err
           | Inr s \<Rightarrow>
               Inr (tok s,
                    \<lparr>process = P\<lparr>getContext := ctx s\<rparr>,
                     cerr_out = cerr s, evaluated_out = evaluated s\<rparr>)))"

text \<open>
  The two loops of \<^verbatim>\<open>simulate\<close>: creating the tokens, then executing each in place,
  in the order of the vector. Nothing reads the vector while the second loop runs, so
  the model stores the tokens back when the loop is done.
\<close>

function createTokens :: "int \<Rightarrow> int \<Rightarrow> double \<Rightarrow> double \<Rightarrow> Token list" where
  "createTokens i numCandidates t arrivalInterval =
     (if i < numCandidates
      then Token_new (i + 1) t
             # createTokens (i + 1) numCandidates (dadd t arrivalInterval) arrivalInterval
      else [])"
  by pat_completeness auto
termination
  by (relation "measure (\<lambda>(i, numCandidates, t, arrivalInterval). nat (numCandidates - i))") auto

declare createTokens.simps [simp del]

fun executeTokens :: "nat \<Rightarrow> Token list \<Rightarrow> Run \<Rightarrow> error + Token list \<times> Run" where
  "executeTokens depth [] w = Inr ([], w)"
| "executeTokens depth (t # ts) w =
     (case executeToken depth t w of
        Inl err \<Rightarrow> Inl err
      | Inr (t', w') \<Rightarrow>
          (case executeTokens depth ts w' of
             Inl err \<Rightarrow> Inl err
           | Inr (ts', w'') \<Rightarrow> Inr (t' # ts', w'')))"

definition simulate :: "nat \<Rightarrow> int \<Rightarrow> double \<Rightarrow> Run \<Rightarrow> error + Run" where
  "simulate depth numCandidates arrivalInterval w =
     (let ts = createTokens 0 numCandidates (Finite 0) arrivalInterval;
          w1 = w\<lparr>process := (process w)\<lparr>tokens := ts\<rparr>\<rparr>
      in case executeTokens depth ts w1 of
           Inl err \<Rightarrow> Inl err
         | Inr (ts', w2) \<Rightarrow> Inr (w2\<lparr>process := (process w2)\<lparr>tokens := ts'\<rparr>\<rparr>))"

subsection \<open>Processes used below\<close>

text \<open>
  The state a first \<^verbatim>\<open>execute\<close> call starts from, and the run a process starts
  from: nothing written yet.
\<close>

definition initialState :: "Token \<Rightarrow> ProcessContext \<Rightarrow> ExecState" where
  "initialState t c = \<lparr>tok = t, ctx = c, cerr = [], evaluated = []\<rparr>"

definition initialRun :: "element list \<Rightarrow> ProcessContext \<Rightarrow> Run" where
  "initialRun es c =
     \<lparr>process = \<lparr>elements = es, startElement = Some 0, getContext = c, tokens = []\<rparr>,
      cerr_out = [], evaluated_out = []\<rparr>"

text \<open>
  An exclusive gateway with the rules \<open>r1\<close> (false), \<open>r2\<close> (true), \<open>r3\<close> (true) and a
  default path, each leading to an end event of its own.
\<close>

definition xorGateway :: ExclusiveGateway where
  "xorGateway =
     fst (setDefaultPath (Some 4)
       (fst (addPath ''r3'' (Some 3) (Some (\<lambda>t. True))
         (fst (addPath ''r2'' (Some 2) (Some (\<lambda>t. True))
           (fst (addPath ''r1'' (Some 1) (Some (\<lambda>t. False))
             (ExclusiveGateway_new ''gw'' ''Gate''))))))))"

definition xorElements :: "element list" where
  "xorElements =
     [ExclusiveGatewayE xorGateway,
      EventE (Event_new ''e1'' ''T1'' False),
      EventE (Event_new ''e2'' ''T2'' False),
      EventE (Event_new ''e3'' ''T3'' False),
      EventE (Event_new ''e4'' ''Default'' False)]"

text \<open>
  A start event, then an exclusive gateway \<open>g\<close>, then two end events;
  \<open>gradeGateway\<close> has one rule, which reads the token's \<open>grade\<close>, and no default
  path.
\<close>

definition gradeGateway :: ExclusiveGateway where
  "gradeGateway =
     fst (addPath ''pass'' (Some 2) (Some (\<lambda>t. getData t ''grade'' = ''A''))
       (ExclusiveGateway_new ''gw'' ''Gate''))"

definition gradeElements :: "ExclusiveGateway \<Rightarrow> element list" where
  "gradeElements g =
     [EventE (connectTo (Some 1) (Event_new ''start'' ''Start'' True)),
      ExclusiveGatewayE g,
      EventE (Event_new ''e1'' ''Passed'' False),
      EventE (Event_new ''e2'' ''Other'' False)]"

text \<open>
  A start event, one activity of duration \<open>d\<close> on the resource \<open>A\<close>, an end event.
\<close>

definition serialElements :: "double \<Rightarrow> element list" where
  "serialElements d =
     [EventE (connectTo (Some 1) (Event_new ''start'' ''Start'' True)),
      ActivityE (connectTo (Some 2) (Activity_new ''work'' ''Work'' d ''A'')),
      EventE (Event_new ''end'' ''Done'' False)]"

text \<open>
  A diverging parallel gateway with one branch per duration in \<open>ds\<close>: an activity on
  the resource \<open>A\<close>, leading to a converging parallel gateway, which leads to an end
  event.
\<close>

definition forkJoinElements :: "double list \<Rightarrow> element list" where
  "forkJoinElements ds =
     [ParallelGatewayE ((ParallelGateway_new ''fork'' ''Fork'' True)
        \<lparr>getOutgoing := map (\<lambda>i. Some (3 + i)) [0..<length ds]\<rparr>),
      ParallelGatewayE (connectTo (Some 2) (ParallelGateway_new ''join'' ''Join'' False)),
      EventE (Event_new ''end'' ''Done'' False)]
     @ map (\<lambda>d. ActivityE (connectTo (Some 1) (Activity_new ''branch'' ''Branch'' d ''A''))) ds"

text \<open>Invariants of these runs: the resource is registered, or registered and free.\<close>

definition idle :: "string \<Rightarrow> ProcessContext \<Rightarrow> bool" where
  "idle n c = (case getResource c n of Some r \<Rightarrow> currentlyUsed r = 0 | None \<Rightarrow> False)"

definition serialInv :: "double \<Rightarrow> Run \<Rightarrow> bool" where
  "serialInv d w =
     (elements (process w) = serialElements d \<and> startElement (process w) = Some 0
      \<and> idle ''A'' (getContext (process w)) \<and> countsInv (getContext (process w)))"

definition branchInv :: "ExecState \<Rightarrow> bool" where
  "branchInv s = (getResource (ctx s) ''A'' \<noteq> None \<and> countsInv (ctx s))"

subsection \<open>Properties of binary64 rounding\<close>

lemma ulp_search_spec:
  "0 < u \<Longrightarrow>
   \<exists>k\<le>n. ulp_search n u a = 2 ^ k * u
      \<and> (k \<noteq> 0 \<longrightarrow> 2 ^ 52 * ulp_search n u a \<le> a)
      \<and> (a < 2 ^ 53 * ulp_search n u a \<or> k = n)"
proof (induction n arbitrary: u)
  case 0
  then show ?case by simp
next
  case (Suc n)
  show ?case
  proof (cases "a < 2 ^ 53 * u")
    case True
    then have "ulp_search (Suc n) u a = 2 ^ 0 * u
      \<and> ((0::nat) \<noteq> 0 \<longrightarrow> 2 ^ 52 * ulp_search (Suc n) u a \<le> a)
      \<and> (a < 2 ^ 53 * ulp_search (Suc n) u a \<or> 0 = Suc n)"
      by simp
    then show ?thesis by blast
  next
    case False
    let ?r = "ulp_search n (2 * u) a"
    from Suc.prems have "0 < 2 * u" by simp
    from Suc.IH [OF this] obtain k where k: "k \<le> n" "?r = 2 ^ k * (2 * u)"
      "k \<noteq> 0 \<longrightarrow> 2 ^ 52 * ?r \<le> a" "a < 2 ^ 53 * ?r \<or> k = n"
      by blast
    have r: "ulp_search (Suc n) u a = ?r" using False by simp
    have "2 ^ 52 * ?r \<le> a"
    proof (cases "k = 0")
      case True
      then have "2 ^ 52 * ?r = 2 ^ 53 * u" using k(2) by simp
      then show ?thesis using False by simp
    next
      case False
      then show ?thesis using k(3) by simp
    qed
    then have "Suc k \<le> Suc n \<and> ulp_search (Suc n) u a = 2 ^ Suc k * u
      \<and> (Suc k \<noteq> 0 \<longrightarrow> 2 ^ 52 * ulp_search (Suc n) u a \<le> a)
      \<and> (a < 2 ^ 53 * ulp_search (Suc n) u a \<or> Suc k = Suc n)"
      using k r by simp
    then show ?thesis by blast
  qed
qed

lemma min_ulp_pos: "0 < min_ulp"
  by (simp add: min_ulp_def)

lemma top_ulp: "2 ^ 53 * (2 ^ 2045 * min_ulp) = huge"
proof -
  have "(2::real) ^ 2045 = 2 ^ 971 * 2 ^ 1074"
    by (simp only: power_add [symmetric]) simp
  then have "2 ^ 2045 * min_ulp = (2::real) ^ 971 * (2 ^ 1074 * min_ulp)"
    by (simp only: mult.assoc)
  also have "(2::real) ^ 1074 * min_ulp = 1" by (simp add: min_ulp_def)
  finally have "2 ^ 2045 * min_ulp = (2::real) ^ 971" by simp
  moreover have "(2::real) ^ 53 * 2 ^ 971 = 2 ^ 1024"
    by (simp only: power_add [symmetric]) simp
  ultimately show ?thesis by (simp only: huge_def)
qed

lemma huge_ge: "(2::real) ^ 53 \<le> huge"
  unfolding huge_def by (intro power_increasing) simp_all

lemma huge_pos: "0 < huge"
  by (simp add: huge_def)

lemma ulp_spec:
  assumes "a < huge"
  obtains k where "ulp a = 2 ^ k * min_ulp" and "k \<noteq> 0 \<longrightarrow> 2 ^ 52 * ulp a \<le> a"
    and "a < 2 ^ 53 * ulp a"
proof -
  from ulp_search_spec [OF min_ulp_pos, of 2045 a]
  obtain k where k: "ulp a = 2 ^ k * min_ulp" "k \<noteq> 0 \<longrightarrow> 2 ^ 52 * ulp a \<le> a"
    "a < 2 ^ 53 * ulp a \<or> k = 2045"
    unfolding ulp_def by blast
  have "a < 2 ^ 53 * ulp a"
  proof (cases "k = 2045")
    case True
    then have "2 ^ 53 * ulp a = huge" using k(1) top_ulp by (simp only:)
    then show ?thesis using assms by simp
  next
    case False
    then show ?thesis using k(3) by simp
  qed
  with k(1,2) show ?thesis by (rule that)
qed

lemma ulp_pos: "a < huge \<Longrightarrow> 0 < ulp a"
  by (erule ulp_spec) (simp add: min_ulp_pos)

lemma pow2_step: "j < k \<Longrightarrow> 2 * (2::real) ^ j \<le> 2 ^ k"
proof -
  assume "j < k"
  then have "Suc j \<le> k" by simp
  then have "(2::real) ^ Suc j \<le> 2 ^ k" by (intro power_increasing) simp_all
  then show ?thesis by simp
qed

lemma ulp_order:
  assumes u: "u = 2 ^ j * min_ulp" "a < 2 ^ 53 * u"
    and v: "v = 2 ^ k * min_ulp" "k \<noteq> 0 \<longrightarrow> 2 ^ 52 * v \<le> b"
    and ab: "b \<le> a"
  shows "k \<le> j"
proof (rule ccontr)
  assume "\<not> k \<le> j"
  then have jk: "j < k" by simp
  then have "2 * (2::real) ^ j \<le> 2 ^ k" by (rule pow2_step)
  then have "2 * u \<le> v" using u(1) v(1) min_ulp_pos by (simp add: mult_right_mono)
  then have "2 ^ 52 * (2 * u) \<le> 2 ^ 52 * v" by simp
  moreover have "2 ^ 52 * v \<le> b" using v(2) jk by simp
  moreover have "(2::real) ^ 52 * (2 * u) = 2 ^ 53 * u" by simp
  ultimately show False using u(2) ab by linarith
qed

lemma ulp_unique:
  assumes "a < huge" and "u = 2 ^ j * min_ulp" and "a < 2 ^ 53 * u"
    and "j \<noteq> 0 \<longrightarrow> 2 ^ 52 * u \<le> a"
  shows "ulp a = u"
proof -
  from assms(1) obtain k where k: "ulp a = 2 ^ k * min_ulp"
    "k \<noteq> 0 \<longrightarrow> 2 ^ 52 * ulp a \<le> a" "a < 2 ^ 53 * ulp a"
    by (rule ulp_spec)
  have "k \<le> j" using assms(2,3) k(1,2) by (rule ulp_order) simp
  moreover have "j \<le> k" using k(1,3) assms(2,4) by (rule ulp_order) simp
  ultimately show ?thesis using k(1) assms(2) by simp
qed

lemma rne_of_int: "rne (of_int n) = n"
  by (simp add: rne_def)

lemma rne_floor: "\<lfloor>q\<rfloor> \<le> rne q \<and> rne q \<le> \<lfloor>q\<rfloor> + 1"
  by (simp add: rne_def Let_def)

lemma rne_lower: "of_int n \<le> q \<Longrightarrow> n \<le> rne q"
proof -
  assume "of_int n \<le> q"
  then have "n \<le> \<lfloor>q\<rfloor>" by (simp add: le_floor_iff)
  then show ?thesis using rne_floor [of q] by simp
qed

lemma rne_upper: "q \<le> of_int n \<Longrightarrow> rne q \<le> n"
proof (cases "\<lfloor>q\<rfloor> + 1 \<le> n")
  case True
  then show ?thesis using rne_floor [of q] by simp
next
  case False
  assume q: "q \<le> of_int n"
  then have "\<lfloor>q\<rfloor> \<le> n" by (simp add: floor_le_iff)
  with False have fl: "\<lfloor>q\<rfloor> = n" by simp
  then have "of_int n \<le> q" by (metis of_int_floor_le)
  with q have "q = of_int n" by simp
  then show ?thesis by (simp add: rne_of_int)
qed

lemma round_mag_lower:
  assumes c: "0 \<le> c" "round_mag c = c" and ca: "c \<le> a" and a: "a < huge"
  shows "c \<le> round_mag a"
proof -
  from a obtain j where j: "ulp a = 2 ^ j * min_ulp" "j \<noteq> 0 \<longrightarrow> 2 ^ 52 * ulp a \<le> a"
    "a < 2 ^ 53 * ulp a"
    by (rule ulp_spec)
  from ca a have "c < huge" by simp
  then obtain k where k: "ulp c = 2 ^ k * min_ulp" "k \<noteq> 0 \<longrightarrow> 2 ^ 52 * ulp c \<le> c"
    "c < 2 ^ 53 * ulp c"
    by (rule ulp_spec)
  have ua: "0 < ulp a" using a by (rule ulp_pos)
  have kj: "k \<le> j" using j(1,3) k(1,2) ca by (rule ulp_order)
  show ?thesis
  proof (cases "k = j")
    case True
    then have same: "ulp c = ulp a" using j(1) k(1) by simp
    have "c = of_int (rne (c / ulp a)) * ulp a"
      using c(2) same by (simp add: round_mag_def)
    then have "c / ulp a = of_int (rne (c / ulp a))" using ua by (simp add: field_simps)
    moreover have "c / ulp a \<le> a / ulp a" using ca ua by (simp add: divide_right_mono)
    ultimately have "rne (c / ulp a) \<le> rne (a / ulp a)"
      by (intro rne_lower) simp
    then have "of_int (rne (c / ulp a)) * ulp a \<le> of_int (rne (a / ulp a)) * ulp a"
      using ua by (simp add: mult_right_mono)
    then show ?thesis
      using \<open>c = of_int (rne (c / ulp a)) * ulp a\<close> by (simp add: round_mag_def)
  next
    case False
    with kj have lt: "k < j" by simp
    then have "2 * (2::real) ^ k \<le> 2 ^ j" by (rule pow2_step)
    then have "2 * ulp c \<le> ulp a" using j(1) k(1) min_ulp_pos by (simp add: mult_right_mono)
    then have "2 ^ 53 * ulp c \<le> 2 ^ 52 * ulp a" by simp
    with k(3) have cu: "c < 2 ^ 52 * ulp a" by simp
    have "2 ^ 52 * ulp a \<le> a" using j(2) lt by simp
    then have "of_int (2 ^ 52) \<le> a / ulp a" using ua by (simp add: field_simps)
    then have "2 ^ 52 \<le> rne (a / ulp a)" by (rule rne_lower)
    then have "(2::real) ^ 52 \<le> of_int (rne (a / ulp a))"
      by (metis of_int_le_iff of_int_numeral of_int_power)
    then have "2 ^ 52 * ulp a \<le> round_mag a"
      using ua by (simp add: round_mag_def mult_right_mono)
    with cu show ?thesis by simp
  qed
qed

lemma round_mag_upper:
  assumes c: "round_mag c = c" and ac: "a \<le> c" and a: "0 \<le> a" and c2: "c < huge"
  shows "round_mag a \<le> c"
proof -
  from ac c2 have a2: "a < huge" by simp
  then obtain j where j: "ulp a = 2 ^ j * min_ulp" "j \<noteq> 0 \<longrightarrow> 2 ^ 52 * ulp a \<le> a"
    "a < 2 ^ 53 * ulp a"
    by (rule ulp_spec)
  from c2 obtain k where k: "ulp c = 2 ^ k * min_ulp" "k \<noteq> 0 \<longrightarrow> 2 ^ 52 * ulp c \<le> c"
    "c < 2 ^ 53 * ulp c"
    by (rule ulp_spec)
  have ua: "0 < ulp a" using a2 by (rule ulp_pos)
  have jk: "j \<le> k" using k(1,3) j(1,2) ac by (rule ulp_order)
  show ?thesis
  proof (cases "k = j")
    case True
    then have same: "ulp c = ulp a" using j(1) k(1) by simp
    have ceq: "c = of_int (rne (c / ulp a)) * ulp a"
      using c same by (simp add: round_mag_def)
    then have "c / ulp a = of_int (rne (c / ulp a))" using ua by (simp add: field_simps)
    moreover have "a / ulp a \<le> c / ulp a" using ac ua by (simp add: divide_right_mono)
    ultimately have "rne (a / ulp a) \<le> rne (c / ulp a)"
      by (intro rne_upper) simp
    then have "of_int (rne (a / ulp a)) * ulp a \<le> of_int (rne (c / ulp a)) * ulp a"
      using ua by (simp add: mult_right_mono)
    then show ?thesis using ceq by (simp add: round_mag_def)
  next
    case False
    with jk have lt: "j < k" by simp
    then have "2 * (2::real) ^ j \<le> 2 ^ k" by (rule pow2_step)
    then have "2 * ulp a \<le> ulp c" using j(1) k(1) min_ulp_pos by (simp add: mult_right_mono)
    then have "2 ^ 53 * ulp a \<le> 2 ^ 52 * ulp c" by simp
    moreover have "2 ^ 52 * ulp c \<le> c" using k(2) lt by simp
    ultimately have big: "2 ^ 53 * ulp a \<le> c" by simp
    have "a / ulp a \<le> of_int (2 ^ 53)" using j(3) ua by (simp add: field_simps)
    then have "rne (a / ulp a) \<le> 2 ^ 53" by (rule rne_upper)
    then have "of_int (rne (a / ulp a)) \<le> (2::real) ^ 53"
      by (metis of_int_le_iff of_int_numeral of_int_power)
    then have "round_mag a \<le> 2 ^ 53 * ulp a"
      using ua by (simp add: round_mag_def mult_right_mono)
    with big show ?thesis by simp
  qed
qed

lemma round_mag_nonneg: "0 \<le> a \<Longrightarrow> a < huge \<Longrightarrow> 0 \<le> round_mag a"
proof -
  assume a: "0 \<le> a" "a < huge"
  then have ua: "0 < ulp a" by (simp add: ulp_pos)
  then have "of_int 0 \<le> a / ulp a" using a(1) by simp
  then have "0 \<le> rne (a / ulp a)" by (rule rne_lower)
  then show ?thesis using ua by (simp add: round_mag_def)
qed

lemma round_mag_at:
  assumes "ulp r = v" and "r = of_int m * v" and "0 < v"
  shows "round_mag r = r"
proof -
  have "r / v = of_int m" using assms(2,3) by simp
  then have "rne (r / v) = m" by (simp only: rne_of_int)
  then show ?thesis using assms(1,2) by (simp add: round_mag_def)
qed

lemma round_mag_idem:
  assumes a: "0 \<le> a" "a < huge" and r: "round_mag a < huge"
  shows "round_mag (round_mag a) = round_mag a"
proof -
  let ?n = "rne (a / ulp a)"
  from a(2) obtain j where j: "ulp a = 2 ^ j * min_ulp" "j \<noteq> 0 \<longrightarrow> 2 ^ 52 * ulp a \<le> a"
    "a < 2 ^ 53 * ulp a"
    by (rule ulp_spec)
  have ua: "0 < ulp a" using a(2) by (rule ulp_pos)
  have rm: "round_mag a = of_int ?n * ulp a" by (simp add: round_mag_def)
  have "a / ulp a \<le> of_int (2 ^ 53)" using j(3) ua by (simp add: field_simps)
  then have "?n \<le> 2 ^ 53" by (rule rne_upper)
  then have n53: "of_int ?n \<le> (2::real) ^ 53"
    by (metis of_int_le_iff of_int_numeral of_int_power)
  have low: "j \<noteq> 0 \<longrightarrow> 2 ^ 52 * ulp a \<le> round_mag a"
  proof
    assume "j \<noteq> 0"
    then have "2 ^ 52 * ulp a \<le> a" using j(2) by simp
    then have "of_int (2 ^ 52) \<le> a / ulp a" using ua by (simp add: field_simps)
    then have "2 ^ 52 \<le> ?n" by (rule rne_lower)
    then have "(2::real) ^ 52 \<le> of_int ?n"
      by (metis of_int_le_iff of_int_numeral of_int_power)
    then show "2 ^ 52 * ulp a \<le> round_mag a" using ua by (simp add: rm mult_right_mono)
  qed
  show ?thesis
  proof (cases "of_int ?n < (2::real) ^ 53")
    case True
    then have lt: "round_mag a < 2 ^ 53 * ulp a" using ua by (simp add: rm)
    have "ulp (round_mag a) = ulp a" by (rule ulp_unique [OF r j(1) lt low])
    then show ?thesis using rm ua by (rule round_mag_at)
  next
    case False
    with n53 have n: "of_int ?n = (2::real) ^ 53" by simp
    then have ra: "round_mag a = 2 ^ 52 * (2 * ulp a)" by (simp add: rm)
    have u2: "2 * ulp a = 2 ^ Suc j * min_ulp" using j(1) by simp
    have lt: "round_mag a < 2 ^ 53 * (2 * ulp a)" using ua ra by simp
    have lo: "Suc j \<noteq> 0 \<longrightarrow> 2 ^ 52 * (2 * ulp a) \<le> round_mag a" using ra by simp
    have "ulp (round_mag a) = 2 * ulp a" by (rule ulp_unique [OF r u2 lt lo])
    moreover have "round_mag a = of_int (2 ^ 52) * (2 * ulp a)" using ra by simp
    moreover have "0 < 2 * ulp a" using ua by simp
    ultimately show ?thesis by (rule round_mag_at)
  qed
qed

lemma round_mag_int:
  assumes "0 \<le> n" and "of_int n < (2::real) ^ 53"
  shows "round_mag (of_int n) = of_int n"
proof -
  let ?a = "of_int n :: real"
  have a2: "?a < huge"
    using assms(2) huge_ge by simp
  then obtain j where j: "ulp ?a = 2 ^ j * min_ulp" "j \<noteq> 0 \<longrightarrow> 2 ^ 52 * ulp ?a \<le> ?a"
    "?a < 2 ^ 53 * ulp ?a"
    by (rule ulp_spec)
  have ua: "0 < ulp ?a" using a2 by (rule ulp_pos)
  have one: "2 ^ 1074 * min_ulp = 1" by (simp add: min_ulp_def)
  have "j \<le> 1074"
  proof (rule ccontr)
    assume "\<not> j \<le> 1074"
    then have gt: "1074 < j" by simp
    then have "2 * (2::real) ^ 1074 \<le> 2 ^ j" by (rule pow2_step)
    then have "2 * (2::real) ^ 1074 * min_ulp \<le> 2 ^ j * min_ulp"
      using min_ulp_pos by (intro mult_right_mono) simp_all
    moreover have "2 * (2::real) ^ 1074 * min_ulp = 2 * (2 ^ 1074 * min_ulp)"
      by (simp only: mult.assoc)
    ultimately have "2 \<le> ulp ?a" using j(1) by (simp only: one)
    then have "2 ^ 52 * 2 \<le> 2 ^ 52 * ulp ?a" by simp
    moreover have "2 ^ 52 * ulp ?a \<le> ?a" using j(2) gt by simp
    ultimately show False using assms(2) by simp
  qed
  then obtain i where i: "j + i = 1074" by (auto simp: le_iff_add)
  have "(2::real) ^ (j + i) * min_ulp = 1" using one by (simp only: i)
  moreover have "ulp ?a * 2 ^ i = 2 ^ (j + i) * min_ulp"
    by (simp only: j(1) power_add mult.assoc mult.commute mult.left_commute)
  ultimately have ui: "ulp ?a * 2 ^ i = 1" by simp
  then have inv: "1 / ulp ?a = 2 ^ i" using ua by (simp add: field_simps)
  have "?a / ulp ?a = ?a * (1 / ulp ?a)" by simp
  also have "\<dots> = of_int (n * 2 ^ i)" by (simp add: inv)
  finally have "rne (?a / ulp ?a) = n * 2 ^ i" by (simp only: rne_of_int)
  then have "round_mag ?a = of_int (n * 2 ^ i) * ulp ?a" by (simp add: round_mag_def)
  also have "\<dots> = ?a * (2 ^ i * ulp ?a)" by simp
  also have "2 ^ i * ulp ?a = 1" using ui by (simp add: mult.commute)
  finally show ?thesis by simp
qed


lemma round_mag_0: "round_mag 0 = 0"
  by (simp add: round_mag_def rne_def)

lemma fl_FiniteD:
  assumes "fl c = Finite c"
  shows "\<bar>c\<bar> < huge" and "round_mag \<bar>c\<bar> = \<bar>c\<bar>"
proof -
  show a: "\<bar>c\<bar> < huge"
    using assms by (auto simp: fl_def split: if_splits)
  then have "Finite (if 0 \<le> c then round_mag \<bar>c\<bar> else - round_mag \<bar>c\<bar>) = Finite c"
    using assms by (auto simp: fl_def Let_def split: if_splits)
  then show "round_mag \<bar>c\<bar> = \<bar>c\<bar>"
    by (auto split: if_splits)
qed

lemma fl_fixpoint:
  assumes "\<bar>c\<bar> < huge" and "round_mag \<bar>c\<bar> = \<bar>c\<bar>"
  shows "fl c = Finite c"
  using assms by (simp add: fl_def Let_def)

lemma fl_valid: "is_double (fl x)"
proof (cases "huge \<le> \<bar>x\<bar>")
  case True
  then have "fl x = (if 0 < x then PlusInf else MinusInf)" by (simp only: fl_def if_True)
  then show ?thesis by (simp add: is_double_def)
next
  case False
  let ?r = "round_mag \<bar>x\<bar>"
  from False have a: "\<bar>x\<bar> < huge" by simp
  show ?thesis
  proof (cases "huge \<le> ?r")
    case True
    then have "fl x = (if 0 < x then PlusInf else MinusInf)"
      using False by (simp only: fl_def Let_def if_True if_False)
    then show ?thesis by (simp add: is_double_def)
  next
    case nr: False
    then have r: "?r < huge" by simp
    have r0: "0 \<le> ?r" using a by (intro round_mag_nonneg) simp_all
    have idem: "round_mag ?r = ?r" using a r by (intro round_mag_idem) simp_all
    define y where "y = (if 0 \<le> x then ?r else - ?r)"
    have res: "fl x = Finite y"
      using False nr unfolding y_def by (simp only: fl_def Let_def if_False)
    have ay: "\<bar>y\<bar> = ?r" using r0 by (simp add: y_def)
    have "fl y = Finite y"
    proof (rule fl_fixpoint)
      show "\<bar>y\<bar> < huge" using r by (simp only: ay)
      show "round_mag \<bar>y\<bar> = \<bar>y\<bar>" using idem by (simp only: ay)
    qed
    then show ?thesis by (simp add: res is_double_def)
  qed
qed

lemma fl_big: "huge \<le> \<bar>x\<bar> \<Longrightarrow> fl x = (if 0 < x then PlusInf else MinusInf)"
  by (simp only: fl_def if_True)

lemma fl_over:
  "\<bar>x\<bar> < huge \<Longrightarrow> huge \<le> round_mag \<bar>x\<bar> \<Longrightarrow> fl x = (if 0 < x then PlusInf else MinusInf)"
  by (simp add: fl_def Let_def)

lemma fl_fin:
  "\<bar>x\<bar> < huge \<Longrightarrow> round_mag \<bar>x\<bar> < huge \<Longrightarrow>
   fl x = Finite (if 0 \<le> x then round_mag \<bar>x\<bar> else - round_mag \<bar>x\<bar>)"
  by (simp add: fl_def Let_def)

lemma fl_lower:
  assumes c: "fl c = Finite c" and cx: "c \<le> x"
  shows "dle (Finite c) (fl x)"
proof -
  from c have c2: "\<bar>c\<bar> < huge" and cr: "round_mag \<bar>c\<bar> = \<bar>c\<bar>"
    by (rule fl_FiniteD)+
  show ?thesis
  proof (cases "huge \<le> \<bar>x\<bar>")
    case True
    have "0 < x"
    proof (rule ccontr)
      assume "\<not> 0 < x"
      then have "\<bar>x\<bar> \<le> \<bar>c\<bar>" using cx by simp
      then show False using True c2 by simp
    qed
    then have "fl x = PlusInf" using fl_big [OF True] by simp
    then show ?thesis by simp
  next
    case False
    then have a: "\<bar>x\<bar> < huge" by simp
    let ?r = "round_mag \<bar>x\<bar>"
    have r0: "0 \<le> ?r" using a by (intro round_mag_nonneg) simp_all
    show ?thesis
    proof (cases "0 \<le> x")
      case True
      have le: "c \<le> ?r"
      proof (cases "0 \<le> c")
        case True
        have "\<bar>c\<bar> \<le> round_mag \<bar>x\<bar>"
        proof (rule round_mag_lower)
          show "0 \<le> \<bar>c\<bar>" by simp
          show "round_mag \<bar>c\<bar> = \<bar>c\<bar>" by (rule cr)
          show "\<bar>c\<bar> \<le> \<bar>x\<bar>" using True cx by simp
          show "\<bar>x\<bar> < huge" by (rule a)
        qed
        then show ?thesis using True by simp
      next
        case False
        then show ?thesis using r0 by simp
      qed
      show ?thesis
      proof (cases "huge \<le> ?r")
        case over: True
        have "x \<noteq> 0"
        proof
          assume "x = 0"
          then have "?r = 0" by (simp add: round_mag_0)
          then show False using over huge_pos by simp
        qed
        then have "0 < x" using True by simp
        then have "fl x = PlusInf" using fl_over [OF a over] by simp
        then show ?thesis by simp
      next
        case False
        then have "?r < huge" by simp
        then have "fl x = Finite ?r" using fl_fin [OF a] True by simp
        then show ?thesis using le by simp
      qed
    next
      case False
      then have xc: "\<bar>x\<bar> \<le> \<bar>c\<bar>" using cx by simp
      have ub: "?r \<le> \<bar>c\<bar>"
      proof (rule round_mag_upper)
        show "round_mag \<bar>c\<bar> = \<bar>c\<bar>" by (rule cr)
        show "\<bar>x\<bar> \<le> \<bar>c\<bar>" by (rule xc)
        show "0 \<le> \<bar>x\<bar>" by simp
        show "\<bar>c\<bar> < huge" by (rule c2)
      qed
      then have rl: "?r < huge" using c2 by simp
      have "c \<le> - ?r" using ub cx False by simp
      moreover have "fl x = Finite (- ?r)" using fl_fin [OF a rl] False by simp
      ultimately show ?thesis by simp
    qed
  qed
qed

lemma fl_of_int:
  assumes "\<bar>of_int n\<bar> < (2::real) ^ 53"
  shows "fl (of_int n) = Finite (of_int n)"
proof -
  from assms huge_ge have a: "\<bar>of_int n :: real\<bar> < huge" by simp
  have "round_mag (of_int \<bar>n\<bar>) = of_int \<bar>n\<bar>"
    using assms by (intro round_mag_int) simp_all
  then have "round_mag \<bar>of_int n :: real\<bar> = \<bar>of_int n\<bar>" by simp
  with a show ?thesis by (rule fl_fixpoint)
qed

lemma fl_numeral: "(numeral w :: real) < 2 ^ 53 \<Longrightarrow> fl (numeral w) = Finite (numeral w)"
  using fl_of_int [of "numeral w"] by simp

lemma fl_neg_numeral:
  "(numeral w :: real) < 2 ^ 53 \<Longrightarrow> fl (- numeral w) = Finite (- numeral w)"
  using fl_of_int [of "- numeral w"] by simp

lemma fl_0: "fl 0 = Finite 0"
  using fl_of_int [of 0] by simp

lemma fl_1: "fl 1 = Finite 1"
  using fl_of_int [of 1] by simp

text \<open>An inexact case: \<open>10^16 + 1\<close> lies halfway between two binary64 numbers.\<close>

lemma ulp_1e16: "ulp 10000000000000001 = 2"
proof (rule ulp_unique [where j = 1075])
  show "(10000000000000001::real) < huge" by (simp add: huge_def)
  show "(2::real) = 2 ^ 1075 * min_ulp" by (simp add: min_ulp_def)
  show "(10000000000000001::real) < 2 ^ 53 * 2" by simp
  show "(1075::nat) \<noteq> 0 \<longrightarrow> 2 ^ 52 * 2 \<le> (10000000000000001::real)" by simp
qed

lemma round_mag_1e16: "round_mag 10000000000000001 = 10000000000000000"
  by (simp add: round_mag_def ulp_1e16 rne_def)

lemma fl_1e16: "fl 10000000000000001 = Finite 10000000000000000"
proof -
  have "\<bar>10000000000000001::real\<bar> < huge" by (simp add: huge_def)
  moreover have "round_mag \<bar>10000000000000001::real\<bar> < huge"
    by (simp add: round_mag_1e16 huge_def)
  ultimately have "fl 10000000000000001
      = Finite (if (0::real) \<le> 10000000000000001 then round_mag \<bar>10000000000000001\<bar>
                else - round_mag \<bar>10000000000000001\<bar>)"
    by (rule fl_fin)
  then show ?thesis by (simp add: round_mag_1e16)
qed

subsection \<open>Properties of the token\<close>

lemma applyTokenOp_startTime: "startTime (applyTokenOp t x) = startTime t"
  by (cases x) (simp_all add: setData_def advanceTime_def complete_def)

lemma dle_Finite_cases:
  assumes "dle (Finite x) b"
  obtains y where "b = Finite y" and "x \<le> y" | "b = PlusInf"
  using assms by (cases b) simp_all

lemma dle_refl: "clockOk st t \<Longrightarrow> dle (currentTime t) (currentTime t)"
  by (cases "currentTime t") (simp_all add: clockOk_def)

lemma advanceTime_clockOk:
  assumes ok: "clockOk st t" and d: "dle (Finite 0) d"
  shows "clockOk st (advanceTime d t) \<and> dle (currentTime t) (currentTime (advanceTime d t))"
proof -
  have st: "startTime (advanceTime d t) = Finite st"
    using ok by (simp add: clockOk_def advanceTime_def)
  have new: "currentTime (advanceTime d t) = dadd (currentTime t) d"
    by (simp add: advanceTime_def)
  from d consider y where "d = Finite y" "0 \<le> y" | "d = PlusInf"
    by (rule dle_Finite_cases)
  then show ?thesis
  proof cases
    case fin: 1
    show ?thesis
    proof (cases "currentTime t")
      case (Finite x)
      with ok have x: "fl x = Finite x" "st \<le> x" by (simp_all add: clockOk_def)
      have sum: "currentTime (advanceTime d t) = fl (x + y)"
        using Finite fin(1) by (simp add: advanceTime_def)
      have "dle (Finite x) (fl (x + y))" using x(1) fin(2) by (intro fl_lower) simp_all
      then consider z where "fl (x + y) = Finite z" "x \<le> z" | "fl (x + y) = PlusInf"
        by (rule dle_Finite_cases)
      then show ?thesis
      proof cases
        case 1
        have "fl z = Finite z" using fl_valid [of "x + y"] 1(1) by (simp add: is_double_def)
        then show ?thesis using 1 x(2) st Finite by (simp add: clockOk_def sum)
      next
        case 2
        then show ?thesis using st Finite by (simp add: clockOk_def sum)
      qed
    next
      case PlusInf
      then show ?thesis using fin st by (simp add: clockOk_def advanceTime_def)
    next
      case MinusInf
      then show ?thesis using ok by (simp add: clockOk_def)
    next
      case NaN
      then show ?thesis using ok by (simp add: clockOk_def)
    qed
  next
    case inf: 2
    show ?thesis
    proof (cases "currentTime t")
      case (Finite x)
      then show ?thesis using inf st by (simp add: clockOk_def advanceTime_def)
    next
      case PlusInf
      then show ?thesis using inf st by (simp add: clockOk_def advanceTime_def)
    next
      case MinusInf
      then show ?thesis using ok by (simp add: clockOk_def)
    next
      case NaN
      then show ?thesis using ok by (simp add: clockOk_def)
    qed
  qed
qed

lemma applyTokenOp_clockOk:
  assumes "clockOk st t" and "nonNegative x"
  shows "clockOk st (applyTokenOp t x) \<and> dle (currentTime t) (currentTime (applyTokenOp t x))"
proof (cases x)
  case (SetData k v)
  then show ?thesis using assms(1) dle_refl [OF assms(1)]
    by (simp add: setData_def clockOk_def)
next
  case (AdvanceTime m)
  then show ?thesis using assms advanceTime_clockOk by simp
next
  case (Complete r)
  then show ?thesis using assms(1) dle_refl [OF assms(1)]
    by (simp add: complete_def clockOk_def)
qed

lemma foldl_applyTokenOp_clockOk:
  "clockOk st t \<Longrightarrow> list_all nonNegative ops \<Longrightarrow> clockOk st (foldl applyTokenOp t ops)"
proof (induction ops arbitrary: t)
  case Nil
  then show ?case by simp
next
  case (Cons x xs)
  from Cons.prems have "clockOk st (applyTokenOp t x)"
    using applyTokenOp_clockOk by simp
  moreover from Cons.prems have "list_all nonNegative xs" by simp
  ultimately show ?case using Cons.IH by simp
qed

lemma clockOk_start: "clockOk st t \<Longrightarrow> dle (Finite st) (currentTime t)"
  by (cases "currentTime t") (simp_all add: clockOk_def)

lemma clockOk_cycle:
  assumes "clockOk st t"
  shows "dle (Finite 0) (getCycleTime t)"
proof (cases "currentTime t")
  case (Finite x)
  with assms have x: "st \<le> x" and s: "startTime t = Finite st" by (simp_all add: clockOk_def)
  have "dle (Finite 0) (fl (x + - st))" using x by (intro fl_lower fl_0) simp
  then show ?thesis using Finite s by (simp add: getCycleTime_def dsub_def)
next
  case PlusInf
  then show ?thesis using assms by (simp add: getCycleTime_def dsub_def clockOk_def)
next
  case MinusInf
  then show ?thesis using assms by (simp add: clockOk_def)
next
  case NaN
  then show ?thesis using assms by (simp add: clockOk_def)
qed

lemma clockOk_new: "is_double (Finite st) \<Longrightarrow> clockOk st (Token_new i (Finite st))"
  by (simp add: clockOk_def Token_new_def is_double_def)

text \<open>The clock is rounded: one minute added to a clock at \<open>10^16\<close> is lost.\<close>

lemma advanceTime_rounds:
  "currentTime (advanceTime (Finite 1) (Token_new 1 (Finite 10000000000000000)))
     = Finite 10000000000000000"
  by (simp add: advanceTime_def Token_new_def fl_1e16)

text \<open>
  Claim C5, as stated: once \<open>complete reason1\<close> has been called, a later
  \<open>complete reason2\<close> leaves the end reason equal to \<open>reason1\<close>. The code assigns the
  reason unconditionally, so the second reason replaces the first.
\<close>

theorem complete_twice_counterexample:
  "endReason (complete ''Rejected'' (complete ''Hired'' (Token_new 1 (Finite 0)))) \<noteq> ''Hired''"
  by (simp add: complete_def Token_new_def)

text \<open>
  Claim C5, amended: \<open>complete\<close> has no guard. Every call sets the completed flag and
  assigns the end reason, so after two calls the flag is true and the end reason is the
  reason of the second call; nothing else of the token changes.
\<close>

theorem complete_twice_last_wins:
  "complete reason2 (complete reason1 t) = t\<lparr>completed := True, endReason := reason2\<rparr>"
  by (simp add: complete_def)

text \<open>
  Claim C6, as stated: \<open>advanceTime\<close> fails on a negative duration and leaves the clock
  alone. The code adds the duration whatever its sign: a negative one moves the clock
  back and makes the cycle time negative.
\<close>

theorem advanceTime_negative_counterexample:
  "currentTime (advanceTime (Finite (- 5)) (Token_new 1 (Finite 0))) = Finite (- 5)
   \<and> dless (currentTime (advanceTime (Finite (- 5)) (Token_new 1 (Finite 0))))
        (currentTime (Token_new 1 (Finite 0)))
   \<and> dless (getCycleTime (complete ''End'' (advanceTime (Finite (- 5)) (Token_new 1 (Finite 0)))))
        (Finite 0)"
  by (simp add: advanceTime_def Token_new_def complete_def getCycleTime_def dsub_def
      fl_neg_numeral)

text \<open>
  Claim C6, amended: \<open>advanceTime\<close> never fails and checks nothing: it replaces the
  clock by the binary64 sum of the clock and the duration, whatever the duration's sign.
  For a token constructed with a finite start time, and as long as every duration passed
  to \<open>advanceTime\<close> since construction was \<open>\<ge> 0\<close> (so not a NaN): the clock is no less
  than the start time, the cycle time \<open>currentTime - startTime\<close> is \<open>\<ge> 0\<close> (at
  completion as at any other moment), and a further \<open>advanceTime\<close> with a duration
  \<open>\<ge> 0\<close> leaves the clock no less than it was. The comparisons are those of
  \<^verbatim>\<open>double\<close>; the sum is rounded, so a small duration may leave a large clock
  unchanged.
\<close>

theorem advanceTime_adds:
  "currentTime (advanceTime d t) = dadd (currentTime t) d
   \<and> (is_double (Finite st) \<and> list_all nonNegative ops \<longrightarrow>
        dle (currentTime (Token_new i (Finite st)))
          (currentTime (foldl applyTokenOp (Token_new i (Finite st)) ops))
        \<and> dle (Finite 0) (getCycleTime (foldl applyTokenOp (Token_new i (Finite st)) ops))
        \<and> (dle (Finite 0) d \<longrightarrow>
             dle (currentTime (foldl applyTokenOp (Token_new i (Finite st)) ops))
               (currentTime (advanceTime d (foldl applyTokenOp (Token_new i (Finite st)) ops)))))"
proof (intro conjI impI)
  show "currentTime (advanceTime d t) = dadd (currentTime t) d"
    by (simp add: advanceTime_def)
next
  assume a: "is_double (Finite st) \<and> list_all nonNegative ops"
  then have "clockOk st (foldl applyTokenOp (Token_new i (Finite st)) ops)"
    by (intro foldl_applyTokenOp_clockOk clockOk_new) simp_all
  then have "dle (Finite st) (currentTime (foldl applyTokenOp (Token_new i (Finite st)) ops))"
    by (rule clockOk_start)
  then show "dle (currentTime (Token_new i (Finite st)))
          (currentTime (foldl applyTokenOp (Token_new i (Finite st)) ops))"
    by (simp add: Token_new_def)
next
  assume a: "is_double (Finite st) \<and> list_all nonNegative ops"
  then have "clockOk st (foldl applyTokenOp (Token_new i (Finite st)) ops)"
    by (intro foldl_applyTokenOp_clockOk clockOk_new) simp_all
  then show "dle (Finite 0) (getCycleTime (foldl applyTokenOp (Token_new i (Finite st)) ops))"
    by (rule clockOk_cycle)
next
  assume a: "is_double (Finite st) \<and> list_all nonNegative ops" and d: "dle (Finite 0) d"
  from a have "clockOk st (foldl applyTokenOp (Token_new i (Finite st)) ops)"
    by (intro foldl_applyTokenOp_clockOk clockOk_new) simp_all
  then show "dle (currentTime (foldl applyTokenOp (Token_new i (Finite st)) ops))
               (currentTime (advanceTime d (foldl applyTokenOp (Token_new i (Finite st)) ops)))"
    using d advanceTime_clockOk by blast
qed

theorem advanceTime_adds_witness:
  "is_double (Finite 5)
   \<and> list_all nonNegative
        [AdvanceTime (Finite 60), SetData ''score'' ''7'', AdvanceTime (Finite 30), Complete ''End'']
   \<and> currentTime (foldl applyTokenOp (Token_new 1 (Finite 5))
        [AdvanceTime (Finite 60), SetData ''score'' ''7'', AdvanceTime (Finite 30), Complete ''End''])
       = Finite 95
   \<and> getCycleTime (foldl applyTokenOp (Token_new 1 (Finite 5))
        [AdvanceTime (Finite 60), SetData ''score'' ''7'', AdvanceTime (Finite 30), Complete ''End''])
       = Finite 90
   \<and> dle (Finite 0) (getCycleTime (foldl applyTokenOp (Token_new 1 (Finite 5))
        [AdvanceTime (Finite 60), SetData ''score'' ''7'', AdvanceTime (Finite 30), Complete ''End'']))
   \<and> dle (Finite 0) (Finite 10)
   \<and> dle (currentTime (foldl applyTokenOp (Token_new 1 (Finite 5))
        [AdvanceTime (Finite 60), SetData ''score'' ''7'', AdvanceTime (Finite 30), Complete ''End'']))
      (currentTime (advanceTime (Finite 10) (foldl applyTokenOp (Token_new 1 (Finite 5))
        [AdvanceTime (Finite 60), SetData ''score'' ''7'', AdvanceTime (Finite 30), Complete ''End''])))"
  using advanceTime_adds [of "Finite 10" "Token_new 1 (Finite 5)" 5
      "[AdvanceTime (Finite 60), SetData ''score'' ''7'', AdvanceTime (Finite 30), Complete ''End'']" 1]
  by (simp add: getCycleTime_def dsub_def advanceTime_def setData_def complete_def Token_new_def
      is_double_def fl_numeral)

text \<open>
  Claim C10: \<open>getData\<close> is total. For a key absent from the data bag it returns the
  empty string, for a present key the stored value, and in both cases the token after
  the lookup is the token before it: no entry is inserted.
\<close>

theorem getData_total:
  "snd (getData_run key t) = t
   \<and> fst (getData_run key t) = getData t key
   \<and> (key \<notin> dom (data t) \<longrightarrow> getData t key = '''')
   \<and> (\<forall>v. data t key = Some v \<longrightarrow> getData t key = v)"
  by (auto simp: getData_run_def getData_def split: option.splits)

theorem getData_total_witness:
  "''salary'' \<notin> dom (data (setData ''score'' ''7'' (Token_new 1 (Finite 0))))
   \<and> getData (setData ''score'' ''7'' (Token_new 1 (Finite 0))) ''salary'' = ''''
   \<and> data (setData ''score'' ''7'' (Token_new 1 (Finite 0))) ''score'' = Some ''7''
   \<and> getData (setData ''score'' ''7'' (Token_new 1 (Finite 0))) ''score'' = ''7''
   \<and> snd (getData_run ''salary'' (setData ''score'' ''7'' (Token_new 1 (Finite 0))))
       = setData ''score'' ''7'' (Token_new 1 (Finite 0))"
  using getData_total [of "''salary''" "setData ''score'' ''7'' (Token_new 1 (Finite 0))"]
    getData_total [of "''score''" "setData ''score'' ''7'' (Token_new 1 (Finite 0))"]
  by (simp add: setData_def Token_new_def)

subsection \<open>Properties of resources and of the context\<close>

lemma applyResourceOp_inv:
  "0 \<le> currentlyUsed r \<and> currentlyUsed r \<le> totalAvailable r \<Longrightarrow>
   0 \<le> currentlyUsed (applyResourceOp r x)
   \<and> currentlyUsed (applyResourceOp r x) \<le> totalAvailable (applyResourceOp r x)"
  by (cases x) (simp_all add: acquire_def release_def addUsage_def isAvailable_def)

lemma applyResourceOp_totalAvailable:
  "totalAvailable (applyResourceOp r x) = totalAvailable r"
  by (cases x) (simp_all add: acquire_def release_def addUsage_def)

lemma foldl_applyResourceOp_inv:
  "0 \<le> currentlyUsed r \<and> currentlyUsed r \<le> totalAvailable r \<Longrightarrow>
   0 \<le> currentlyUsed (foldl applyResourceOp r ops)
   \<and> currentlyUsed (foldl applyResourceOp r ops) \<le> totalAvailable (foldl applyResourceOp r ops)"
proof (induction ops arbitrary: r)
  case Nil
  then show ?case by simp
next
  case (Cons x xs)
  from Cons.prems have "0 \<le> currentlyUsed (applyResourceOp r x)
     \<and> currentlyUsed (applyResourceOp r x) \<le> totalAvailable (applyResourceOp r x)"
    by (rule applyResourceOp_inv)
  then show ?case using Cons.IH by simp
qed

lemma foldl_applyResourceOp_totalAvailable:
  "totalAvailable (foldl applyResourceOp r ops) = totalAvailable r"
  by (induction ops arbitrary: r) (simp_all add: applyResourceOp_totalAvailable)

text \<open>
  Claim C4: for a resource constructed with capacity \<open>\<ge> 1\<close>, after every sequence of
  \<open>acquire\<close>, \<open>release\<close> and \<open>addUsage\<close> calls the in-use count lies between 0 and
  the capacity, and the capacity is the one it was constructed with. Every prefix of a
  sequence is a sequence, so this holds at each instant in between.
\<close>

theorem resource_invariant:
  assumes "1 \<le> capacity"
  shows "0 \<le> currentlyUsed (foldl applyResourceOp (Resource_new n capacity cost) ops)
       \<and> currentlyUsed (foldl applyResourceOp (Resource_new n capacity cost) ops) \<le> capacity
       \<and> totalAvailable (foldl applyResourceOp (Resource_new n capacity cost) ops) = capacity"
proof -
  let ?r = "Resource_new n capacity cost"
  have "0 \<le> currentlyUsed ?r \<and> currentlyUsed ?r \<le> totalAvailable ?r"
    using assms by (simp add: Resource_new_def)
  then have "0 \<le> currentlyUsed (foldl applyResourceOp ?r ops)
     \<and> currentlyUsed (foldl applyResourceOp ?r ops) \<le> totalAvailable (foldl applyResourceOp ?r ops)"
    by (rule foldl_applyResourceOp_inv)
  moreover have "totalAvailable (foldl applyResourceOp ?r ops) = capacity"
    by (simp add: foldl_applyResourceOp_totalAvailable Resource_new_def)
  ultimately show ?thesis by simp
qed

theorem resource_invariant_witness:
  "(1::int) \<le> 1
   \<and> currentlyUsed (foldl applyResourceOp (Resource_new ''A'' 1 (Finite 10)) [Acquire, Acquire]) = 1
   \<and> currentlyUsed (foldl applyResourceOp (Resource_new ''A'' 1 (Finite 10)) [Release]) = 0
   \<and> 0 \<le> currentlyUsed (foldl applyResourceOp (Resource_new ''A'' 1 (Finite 10)) [Acquire, Acquire])
   \<and> currentlyUsed (foldl applyResourceOp (Resource_new ''A'' 1 (Finite 10)) [Acquire, Acquire]) \<le> 1"
  using resource_invariant [of 1 "''A''" "Finite 10" "[Acquire, Acquire]"]
  by (simp add: acquire_def release_def isAvailable_def Resource_new_def)

lemma sum_list_update:
  "sum_list (map snd (AList.update k v h)) = sum_list (map snd h) - reasonCount h k + v"
  by (induction h) (auto simp: reasonCount_def)

lemma reasonCount_update:
  "reasonCount (AList.update k v h) k' = (if k' = k then v else reasonCount h k')"
  by (simp add: reasonCount_def update_conv')

lemma tokenCompleted_Inr:
  assumes "tokenCompleted reason c = Inr c'"
  shows "tokensCompleted c' = tokensCompleted c + 1"
    and "endReasons c' = AList.update reason (reasonCount (endReasons c) reason + 1) (endReasons c)"
    and "tokensStarted c' = tokensStarted c"
  using assms
  by (auto simp: tokenCompleted_def incr_def split: if_splits)

lemma tokenCompleted_total:
  "tokenCompleted reason c = Inr c' \<Longrightarrow> histogramTotal c' = histogramTotal c + 1"
  by (simp add: tokenCompleted_Inr histogramTotal_def sum_list_update)


lemma reasonCount_le_total:
  "list_all (\<lambda>kv. 0 \<le> snd kv) h \<Longrightarrow> 0 \<le> reasonCount h k \<and> reasonCount h k \<le> sum_list (map snd h)"
proof (induction h)
  case Nil
  show ?case by (simp add: reasonCount_def)
next
  case (Cons a h)
  then have IH: "0 \<le> reasonCount h k \<and> reasonCount h k \<le> sum_list (map snd h)"
    and a: "0 \<le> snd a" and h: "0 \<le> sum_list (map snd h)"
    by (auto simp: sum_list_nonneg list_all_iff)
  show ?case
  proof (cases "fst a = k")
    case True
    then show ?thesis using a h by (cases a) (simp add: reasonCount_def)
  next
    case False
    then have "reasonCount (a # h) k = reasonCount h k"
      by (cases a) (simp add: reasonCount_def)
    then show ?thesis using IH a by simp
  qed
qed

lemma list_all_update:
  "list_all (\<lambda>kv. 0 \<le> snd kv) h \<Longrightarrow> (0::int) \<le> v \<Longrightarrow>
   list_all (\<lambda>kv. 0 \<le> snd kv) (AList.update k v h)"
  by (induction h) auto

lemma tokenCompleted_countsInv:
  assumes "countsInv c" and "tokenCompleted reason c = Inr c'"
  shows "countsInv c'"
proof -
  have nn: "0 \<le> reasonCount (endReasons c) reason + 1"
    using assms(1) reasonCount_le_total [of "endReasons c" reason]
    by (simp add: countsInv_def)
  have "list_all (\<lambda>kv. 0 \<le> snd kv) (endReasons c')"
    using assms nn by (simp add: tokenCompleted_Inr(2) list_all_update countsInv_def)
  moreover have "histogramTotal c' = tokensCompleted c'"
    using assms by (simp add: tokenCompleted_total tokenCompleted_Inr(1) countsInv_def)
  ultimately show ?thesis by (simp add: countsInv_def)
qed

lemma other_ops_keep_counts:
  assumes "\<forall>r. x \<noteq> TokenCompleted r" and "applyContextOp c x = Inr c'"
  shows "tokensCompleted c' = tokensCompleted c \<and> endReasons c' = endReasons c"
  using assms
  by (cases x)
     (auto simp: addResource_def putResource_def getResource_def setCurrentTime_def
        tokenStarted_def incr_def split: option.splits if_splits)

lemma applyContextOp_countsInv:
  assumes "countsInv c" and "applyContextOp c x = Inr c'"
  shows "countsInv c'"
proof (cases "\<exists>r. x = TokenCompleted r")
  case True
  then show ?thesis using assms by (auto intro: tokenCompleted_countsInv)
next
  case False
  then have "tokensCompleted c' = tokensCompleted c \<and> endReasons c' = endReasons c"
    using assms(2) by (intro other_ops_keep_counts) auto
  then show ?thesis using assms(1) by (simp add: countsInv_def histogramTotal_def)
qed

lemma applyContextOps_countsInv:
  "countsInv c \<Longrightarrow> applyContextOps c ops = Inr c' \<Longrightarrow> countsInv c'"
proof (induction ops arbitrary: c)
  case Nil
  then show ?case by simp
next
  case (Cons x xs)
  from Cons.prems(2) obtain c1 where c1: "applyContextOp c x = Inr c1"
    and rest: "applyContextOps c1 xs = Inr c'"
    by (auto split: sum.splits)
  from Cons.prems(1) c1 have "countsInv c1" by (rule applyContextOp_countsInv)
  then show ?case using rest by (rule Cons.IH)
qed

lemma applyContextOp_defined:
  assumes "countsInv c" and "tokensStarted c < INT_MAX" and "tokensCompleted c < INT_MAX"
  shows "\<exists>c'. applyContextOp c x = Inr c' \<and> tokensStarted c' \<le> tokensStarted c + 1
           \<and> tokensCompleted c' \<le> tokensCompleted c + 1"
proof (cases x)
  case (TokenCompleted reason)
  have "reasonCount (endReasons c) reason \<le> tokensCompleted c"
    using assms(1) reasonCount_le_total [of "endReasons c" reason]
    by (simp add: countsInv_def histogramTotal_def)
  then show ?thesis using assms TokenCompleted
    by (simp add: tokenCompleted_def incr_def)
next
  case TokenStarted
  then show ?thesis using assms by (simp add: tokenStarted_def incr_def)
qed (simp_all add: addResource_def putResource_def getResource_def setCurrentTime_def
       split: option.splits)

lemma applyContextOps_defined:
  "countsInv c \<Longrightarrow> tokensStarted c + int (length ops) \<le> INT_MAX \<Longrightarrow>
   tokensCompleted c + int (length ops) \<le> INT_MAX \<Longrightarrow> \<exists>c'. applyContextOps c ops = Inr c'"
proof (induction ops arbitrary: c)
  case Nil
  show ?case by simp
next
  case (Cons x xs)
  from Cons.prems have "tokensStarted c < INT_MAX" and "tokensCompleted c < INT_MAX"
    by simp_all
  with Cons.prems(1) obtain c1 where c1: "applyContextOp c x = Inr c1"
    and s: "tokensStarted c1 \<le> tokensStarted c + 1"
    and t: "tokensCompleted c1 \<le> tokensCompleted c + 1"
    using applyContextOp_defined by blast
  have "countsInv c1" using Cons.prems(1) c1 by (rule applyContextOp_countsInv)
  moreover have "tokensStarted c1 + int (length xs) \<le> INT_MAX"
    using s Cons.prems(2) by simp
  moreover have "tokensCompleted c1 + int (length xs) \<le> INT_MAX"
    using t Cons.prems(3) by simp
  ultimately obtain c' where "applyContextOps c1 xs = Inr c'"
    using Cons.IH by blast
  then show ?case using c1 by simp
qed

lemma countsInv_new: "countsInv ProcessContext_new"
  by (simp add: countsInv_def ProcessContext_new_def histogramTotal_def)

text \<open>
  Claim C9: after every sequence of context calls from construction that stays within
  the range of \<^verbatim>\<open>int\<close>, the histogram adds up to \<open>tokensCompleted\<close>, and every
  sequence no longer than \<^verbatim>\<open>INT_MAX\<close> does stay within it. \<open>tokenCompleted\<close> adds
  one to the counter and one to its reason's entry and leaves the other entries alone;
  no other call changes the counter or the histogram.
\<close>

theorem histogram_total:
  "(\<forall>c. applyContextOps ProcessContext_new ops = Inr c \<longrightarrow> histogramTotal c = tokensCompleted c)
   \<and> (int (length ops) \<le> INT_MAX \<longrightarrow> (\<exists>c. applyContextOps ProcessContext_new ops = Inr c))
   \<and> (\<forall>c'. tokenCompleted reason c = Inr c' \<longrightarrow>
          tokensCompleted c' = tokensCompleted c + 1
          \<and> reasonCount (endReasons c') reason = reasonCount (endReasons c) reason + 1
          \<and> (\<forall>r. r \<noteq> reason \<longrightarrow> reasonCount (endReasons c') r = reasonCount (endReasons c) r))
   \<and> (\<forall>c'. (\<forall>r. x \<noteq> TokenCompleted r) \<and> applyContextOp c x = Inr c' \<longrightarrow>
          tokensCompleted c' = tokensCompleted c \<and> endReasons c' = endReasons c)"
proof (intro conjI allI impI)
  fix c1 assume "applyContextOps ProcessContext_new ops = Inr c1"
  with countsInv_new have "countsInv c1" by (rule applyContextOps_countsInv)
  then show "histogramTotal c1 = tokensCompleted c1" by (simp add: countsInv_def)
next
  assume "int (length ops) \<le> INT_MAX"
  then show "\<exists>c. applyContextOps ProcessContext_new ops = Inr c"
    by (intro applyContextOps_defined countsInv_new) (simp_all add: ProcessContext_new_def)
next
  fix c' assume "tokenCompleted reason c = Inr c'"
  then show "tokensCompleted c' = tokensCompleted c + 1" by (rule tokenCompleted_Inr(1))
next
  fix c' assume "tokenCompleted reason c = Inr c'"
  then show "reasonCount (endReasons c') reason = reasonCount (endReasons c) reason + 1"
    by (simp add: tokenCompleted_Inr(2) reasonCount_update)
next
  fix c' r assume "tokenCompleted reason c = Inr c'" and "r \<noteq> reason"
  then show "reasonCount (endReasons c') r = reasonCount (endReasons c) r"
    by (simp add: tokenCompleted_Inr(2) reasonCount_update)
next
  fix c' assume "(\<forall>r. x \<noteq> TokenCompleted r) \<and> applyContextOp c x = Inr c'"
  then show "tokensCompleted c' = tokensCompleted c" using other_ops_keep_counts by blast
next
  fix c' assume "(\<forall>r. x \<noteq> TokenCompleted r) \<and> applyContextOp c x = Inr c'"
  then show "endReasons c' = endReasons c" using other_ops_keep_counts by blast
qed

theorem histogram_total_witness:
  "int (length [TokenStarted, TokenCompleted ''Hired'', TokenStarted,
          TokenCompleted ''Rejected'', TokenCompleted ''Hired'']) \<le> INT_MAX
   \<and> \<not> isl (applyContextOps ProcessContext_new
          [TokenStarted, TokenCompleted ''Hired'', TokenStarted,
           TokenCompleted ''Rejected'', TokenCompleted ''Hired''])
   \<and> endReasons (projr (applyContextOps ProcessContext_new
          [TokenStarted, TokenCompleted ''Hired'', TokenStarted,
           TokenCompleted ''Rejected'', TokenCompleted ''Hired'']))
        = [(''Hired'', 2), (''Rejected'', 1)]
   \<and> tokensCompleted (projr (applyContextOps ProcessContext_new
          [TokenStarted, TokenCompleted ''Hired'', TokenStarted,
           TokenCompleted ''Rejected'', TokenCompleted ''Hired''])) = 3
   \<and> histogramTotal (projr (applyContextOps ProcessContext_new
          [TokenStarted, TokenCompleted ''Hired'', TokenStarted,
           TokenCompleted ''Rejected'', TokenCompleted ''Hired''])) = 3
   \<and> tokensCompleted (projr (tokenCompleted ''Hired'' ProcessContext_new)) = 1
   \<and> reasonCount (endReasons (projr (tokenCompleted ''Hired'' ProcessContext_new))) ''Hired'' = 1
   \<and> tokensCompleted (projr (applyContextOp ProcessContext_new TokenStarted)) = 0
   \<and> endReasons (projr (applyContextOp ProcessContext_new TokenStarted)) = []"
  using histogram_total [of "[TokenStarted, TokenCompleted ''Hired'', TokenStarted,
      TokenCompleted ''Rejected'', TokenCompleted ''Hired'']" "''Hired''" ProcessContext_new
      TokenStarted]
  by (simp add: tokenCompleted_def tokenStarted_def incr_def INT_MAX_def reasonCount_def
      ProcessContext_new_def histogramTotal_def)

subsection \<open>Evaluating the engine on concrete processes\<close>

lemmas engine_eval =
  simulate_def executeToken_def Let_def deref_def initialState_def initialRun_def
  Event_execute_def Activity_execute_def ExclusiveGateway_execute_def
  ParallelGateway_execute_def tokenStarted_def tokenCompleted_def incr_def INT_MAX_def
  reasonCount_def complete_def advanceTime_def Token_new_def ProcessContext_new_def
  getResource_def putResource_def addResource_def Resource_new_def acquire_def release_def
  addUsage_def waitLoop_def isAvailable_def connectTo_def Event_new_def Activity_new_def
  ParallelGateway_new_def getData_def fl_numeral fl_0 fl_1
  numeral_2_eq_2 numeral_3_eq_3

lemma createTokens_2:
  "createTokens 0 2 t iv = [Token_new 1 t, Token_new 2 (dadd t iv)]"
  by (simp add: createTokens.simps [of 0 2] createTokens.simps [of 1 2]
      createTokens.simps [of 2 2])

subsection \<open>Properties of the exclusive gateway\<close>

lemma evalRules_first_match:
  "k < length rs \<Longrightarrow> condition (rs ! k) t \<Longrightarrow> \<forall>j<k. \<not> condition (rs ! j) t \<Longrightarrow>
   evalRules rs t = (map ruleName (take (Suc k) rs), Some (rs ! k))"
proof (induction rs arbitrary: k)
  case Nil
  then show ?case by simp
next
  case (Cons r rs)
  show ?case
  proof (cases k)
    case 0
    then show ?thesis using Cons.prems by simp
  next
    case (Suc k')
    have r: "\<not> condition r t" using Cons.prems(3) Suc by auto
    have "\<forall>j<k'. \<not> condition (rs ! j) t"
    proof (intro allI impI)
      fix j assume "j < k'"
      then have "Suc j < k" using Suc by simp
      then have "\<not> condition ((r # rs) ! Suc j) t" using Cons.prems(3) by blast
      then show "\<not> condition (rs ! j) t" by simp
    qed
    moreover have "k' < length rs" and "condition (rs ! k') t"
      using Cons.prems(1,2) Suc by simp_all
    ultimately have "evalRules rs t = (map ruleName (take (Suc k') rs), Some (rs ! k'))"
      by (intro Cons.IH)
    then show ?thesis using r Suc by simp
  qed
qed

lemma evalRules_no_match:
  "\<forall>r\<in>set rs. \<not> condition r t \<Longrightarrow> evalRules rs t = (map ruleName rs, None)"
  by (induction rs) simp_all

lemma first_match_exists:
  "\<exists>r\<in>set rs. condition r t \<Longrightarrow>
   \<exists>k<length rs. condition (rs ! k) t \<and> (\<forall>j<k. \<not> condition (rs ! j) t)"
proof (induction rs)
  case Nil
  then show ?case by simp
next
  case (Cons r rs)
  show ?case
  proof (cases "condition r t")
    case True
    then have "0 < length (r # rs) \<and> condition ((r # rs) ! 0) t
        \<and> (\<forall>j<0. \<not> condition ((r # rs) ! j) t)" by simp
    then show ?thesis by blast
  next
    case False
    with Cons.prems have "\<exists>r\<in>set rs. condition r t" by auto
    then obtain k where k: "k < length rs" "condition (rs ! k) t"
      "\<forall>j<k. \<not> condition (rs ! j) t"
      using Cons.IH by blast
    have "\<forall>j<Suc k. \<not> condition ((r # rs) ! j) t"
    proof (intro allI impI)
      fix j assume "j < Suc k"
      then show "\<not> condition ((r # rs) ! j) t"
        using False k(3) by (cases j) simp_all
    qed
    then have "Suc k < length (r # rs) \<and> condition ((r # rs) ! Suc k) t
        \<and> (\<forall>j<Suc k. \<not> condition ((r # rs) ! j) t)"
      using k(1,2) by simp
    then show ?thesis by blast
  qed
qed

lemma rules_addPath:
  "rules (fst (addPath rn (Some i) (Some c) g))
     = rules g @ [\<lparr>ruleName = rn, condition = c, nextNode = Some i\<rparr>]"
  by (simp add: addPath_def connectTo_def)

lemma execute_exclusive:
  "deref es p = Some (ExclusiveGatewayE g) \<Longrightarrow>
   execute (Suc depth) es p s = ExclusiveGateway_execute (execute depth es) g s"
  by simp

text \<open>
  Claim C1: at an exclusive gateway the conditions are called in the order of the rule
  list, which is the order of the \<open>addPath\<close> calls. If rule \<open>k\<close> is the first whose
  condition holds on the token, exactly the conditions of rules \<open>0..k\<close> are called, in
  that order, and the visit continues at that rule's target and nowhere else. The
  default path is taken when no condition holds, after all of them were called; when
  some condition holds there is a first such rule, so the default is not taken.
\<close>

theorem exclusive_first_match:
  assumes "deref es p = Some (ExclusiveGatewayE g)"
  shows "(k < length (rules g) \<and> condition (rules g ! k) (tok s)
            \<and> (\<forall>j<k. \<not> condition (rules g ! j) (tok s)) \<longrightarrow>
          execute (Suc depth) es p s
            = execute depth es (nextNode (rules g ! k))
                (s\<lparr>evaluated := evaluated s @ map ruleName (take (Suc k) (rules g))\<rparr>))
       \<and> ((\<forall>r\<in>set (rules g). \<not> condition r (tok s)) \<and> defaultFlow g = Some d \<longrightarrow>
          execute (Suc depth) es p s
            = execute depth es (Some d)
                (s\<lparr>evaluated := evaluated s @ map ruleName (rules g)\<rparr>))
       \<and> ((\<exists>r\<in>set (rules g). condition r (tok s)) \<longrightarrow>
          (\<exists>k<length (rules g). condition (rules g ! k) (tok s)
              \<and> (\<forall>j<k. \<not> condition (rules g ! j) (tok s))))
       \<and> rules (fst (addPath rn (Some i) (Some c) g))
            = rules g @ [\<lparr>ruleName = rn, condition = c, nextNode = Some i\<rparr>]"
proof (intro conjI impI)
  assume "k < length (rules g) \<and> condition (rules g ! k) (tok s)
            \<and> (\<forall>j<k. \<not> condition (rules g ! j) (tok s))"
  then have "evalRules (rules g) (tok s)
      = (map ruleName (take (Suc k) (rules g)), Some (rules g ! k))"
    by (intro evalRules_first_match) simp_all
  then show "execute (Suc depth) es p s
            = execute depth es (nextNode (rules g ! k))
                (s\<lparr>evaluated := evaluated s @ map ruleName (take (Suc k) (rules g))\<rparr>)"
    by (simp only: execute_exclusive [OF assms] ExclusiveGateway_execute_def Let_def
        prod.case option.case)
next
  assume a: "(\<forall>r\<in>set (rules g). \<not> condition r (tok s)) \<and> defaultFlow g = Some d"
  then have "evalRules (rules g) (tok s) = (map ruleName (rules g), None)"
    by (intro evalRules_no_match) simp
  then show "execute (Suc depth) es p s
            = execute depth es (Some d)
                (s\<lparr>evaluated := evaluated s @ map ruleName (rules g)\<rparr>)"
    using a
    by (simp only: execute_exclusive [OF assms] ExclusiveGateway_execute_def Let_def
        prod.case option.case)
next
  assume "\<exists>r\<in>set (rules g). condition r (tok s)"
  then show "\<exists>k<length (rules g). condition (rules g ! k) (tok s)
              \<and> (\<forall>j<k. \<not> condition (rules g ! j) (tok s))"
    by (rule first_match_exists)
next
  show "rules (fst (addPath rn (Some i) (Some c) g))
            = rules g @ [\<lparr>ruleName = rn, condition = c, nextNode = Some i\<rparr>]"
    by (rule rules_addPath)
qed

lemma xorGateway_eq:
  "xorGateway =
     \<lparr>getId = ''gw'', getName = ''Gate'',
      getOutgoing = [Some 1, Some 2, Some 3, Some 4],
      rules = [\<lparr>ruleName = ''r1'', condition = \<lambda>t. False, nextNode = Some 1\<rparr>,
               \<lparr>ruleName = ''r2'', condition = \<lambda>t. True, nextNode = Some 2\<rparr>,
               \<lparr>ruleName = ''r3'', condition = \<lambda>t. True, nextNode = Some 3\<rparr>],
      defaultFlow = Some 4\<rparr>"
  by (simp add: xorGateway_def addPath_def setDefaultPath_def connectTo_def
      ExclusiveGateway_new_def)

lemma gradeGateway_eq:
  "gradeGateway =
     \<lparr>getId = ''gw'', getName = ''Gate'', getOutgoing = [Some 2],
      rules = [\<lparr>ruleName = ''pass'', condition = \<lambda>t. getData t ''grade'' = ''A'',
                nextNode = Some 2\<rparr>],
      defaultFlow = None\<rparr>"
  by (simp add: gradeGateway_def addPath_def connectTo_def ExclusiveGateway_new_def)

theorem exclusive_first_match_witness:
  "deref xorElements (Some 0) = Some (ExclusiveGatewayE xorGateway)
   \<and> map ruleName (rules xorGateway) = [''r1'', ''r2'', ''r3'']
   \<and> defaultFlow xorGateway = Some 4
   \<and> \<not> condition (rules xorGateway ! 0) (Token_new 1 (Finite 0))
   \<and> condition (rules xorGateway ! 1) (Token_new 1 (Finite 0))
   \<and> condition (rules xorGateway ! 2) (Token_new 1 (Finite 0))
   \<and> execute 2 xorElements (Some 0) (initialState (Token_new 1 (Finite 0)) ProcessContext_new)
       = execute 1 xorElements (Some 2)
           ((initialState (Token_new 1 (Finite 0)) ProcessContext_new)\<lparr>evaluated := [''r1'', ''r2'']\<rparr>)
   \<and> evaluated (projr (execute 2 xorElements (Some 0)
         (initialState (Token_new 1 (Finite 0)) ProcessContext_new))) = [''r1'', ''r2'']
   \<and> endReason (tok (projr (execute 2 xorElements (Some 0)
         (initialState (Token_new 1 (Finite 0)) ProcessContext_new)))) = ''T2''
   \<and> endReasons (ctx (projr (execute 2 xorElements (Some 0)
         (initialState (Token_new 1 (Finite 0)) ProcessContext_new)))) = [(''T2'', 1)]
   \<and> deref (gradeElements (fst (setDefaultPath (Some 3) gradeGateway))) (Some 1)
       = Some (ExclusiveGatewayE (fst (setDefaultPath (Some 3) gradeGateway)))
   \<and> execute 2 (gradeElements (fst (setDefaultPath (Some 3) gradeGateway))) (Some 1)
         (initialState (Token_new 1 (Finite 0)) ProcessContext_new)
       = execute 1 (gradeElements (fst (setDefaultPath (Some 3) gradeGateway))) (Some 3)
           ((initialState (Token_new 1 (Finite 0)) ProcessContext_new)\<lparr>evaluated := [''pass'']\<rparr>)
   \<and> endReason (tok (projr (execute 2
         (gradeElements (fst (setDefaultPath (Some 3) gradeGateway))) (Some 1)
         (initialState (Token_new 1 (Finite 0)) ProcessContext_new)))) = ''Other''"
  using exclusive_first_match [of xorElements "Some 0" xorGateway 1
      "initialState (Token_new 1 (Finite 0)) ProcessContext_new" "Suc 0" 4 "''r4''" 5 "\<lambda>t. True"]
    exclusive_first_match [of "gradeElements (fst (setDefaultPath (Some 3) gradeGateway))"
      "Some 1" "fst (setDefaultPath (Some 3) gradeGateway)" 0
      "initialState (Token_new 1 (Finite 0)) ProcessContext_new" "Suc 0" 3 "''r4''" 5 "\<lambda>t. True"]
  by (simp add: xorElements_def xorGateway_eq gradeElements_def gradeGateway_eq
      setDefaultPath_def connectTo_def deref_def initialState_def numeral_2_eq_2
      ExclusiveGateway_execute_def Event_execute_def Event_new_def tokenCompleted_def
      incr_def INT_MAX_def reasonCount_def complete_def Token_new_def ProcessContext_new_def
      getData_def)

text \<open>
  Claim C7, as stated: with no matching rule and no default path the caller receives a
  routing error. In the code the call returns normally: the gateway writes a line to the
  error stream and \<open>simulate\<close> goes on with the next token as after any other visit.
\<close>

theorem exclusive_no_route_counterexample:
  "\<not> isl (execute 3 (gradeElements gradeGateway) (Some 0)
        (initialState (Token_new 1 (Finite 0)) ProcessContext_new))
   \<and> \<not> isl (simulate 3 2 (Finite 1) (initialRun (gradeElements gradeGateway) ProcessContext_new))
   \<and> cerr_out (projr (simulate 3 2 (Finite 1) (initialRun (gradeElements gradeGateway) ProcessContext_new)))
       = [NoValidExitLine 1 ''Gate'', NoValidExitLine 2 ''Gate'']
   \<and> map completed (tokens (process (projr
         (simulate 3 2 (Finite 1) (initialRun (gradeElements gradeGateway) ProcessContext_new)))))
       = [False, False]
   \<and> tokensStarted (getContext (process (projr
         (simulate 3 2 (Finite 1) (initialRun (gradeElements gradeGateway) ProcessContext_new))))) = 2"
  by (simp add: engine_eval gradeElements_def gradeGateway_eq createTokens_2)

text \<open>
  Claim C7, amended: when no rule's condition holds on the token and no default path is
  set, the gateway calls every condition, writes one line naming the token id and the
  gateway's display name to the error stream, and returns normally to its caller without
  executing any further element. No error value reaches the caller. The gateway leaves
  the token and the context as they were, so \<open>completed\<close> keeps its value: false for a
  token that no end event has completed.
\<close>

theorem exclusive_no_route:
  assumes "deref es p = Some (ExclusiveGatewayE g)"
    and "\<forall>r\<in>set (rules g). \<not> condition r (tok s)"
    and "defaultFlow g = None"
  shows "execute (Suc depth) es p s
           = Inr (s\<lparr>evaluated := evaluated s @ map ruleName (rules g),
                    cerr := cerr s @ [NoValidExitLine (candidateId (tok s)) (getName g)]\<rparr>)"
proof -
  have "evalRules (rules g) (tok s) = (map ruleName (rules g), None)"
    using assms(2) by (rule evalRules_no_match)
  then show ?thesis
    using assms(3) by (simp add: assms(1) ExclusiveGateway_execute_def)
qed

theorem exclusive_no_route_witness:
  "deref (gradeElements gradeGateway) (Some 1) = Some (ExclusiveGatewayE gradeGateway)
   \<and> list_all (\<lambda>r. \<not> condition r (Token_new 7 (Finite 0))) (rules gradeGateway)
   \<and> defaultFlow gradeGateway = None
   \<and> execute 1 (gradeElements gradeGateway) (Some 1)
         (initialState (Token_new 7 (Finite 0)) ProcessContext_new)
       = Inr \<lparr>tok = Token_new 7 (Finite 0), ctx = ProcessContext_new,
              cerr = [NoValidExitLine 7 ''Gate''], evaluated = [''pass'']\<rparr>"
  using exclusive_no_route [of "gradeElements gradeGateway" "Some 1" gradeGateway
      "initialState (Token_new 7 (Finite 0)) ProcessContext_new" 0]
  by (simp add: gradeElements_def gradeGateway_eq deref_def initialState_def Token_new_def
      getData_def)

subsection \<open>Properties of activities\<close>

lemma tokenCompleted_resources:
  "tokenCompleted reason c = Inr c' \<Longrightarrow> resources c' = resources c"
  by (auto simp: tokenCompleted_def incr_def split: if_splits)

lemma tokenCompleted_defined:
  assumes "countsInv c" and "tokensCompleted c < INT_MAX"
  shows "\<exists>c'. tokenCompleted reason c = Inr c'"
proof -
  have "reasonCount (endReasons c) reason \<le> tokensCompleted c"
    using assms(1) reasonCount_le_total [of "endReasons c" reason]
    by (simp add: countsInv_def histogramTotal_def)
  then show ?thesis using assms(2) by (simp add: tokenCompleted_def incr_def)
qed

text \<open>
  Claim C8, as stated: an activity whose resource is not registered raises an error that
  reaches the caller and names the case and the resource. In the code the activity
  writes a line naming the resource only (the same line for case 1 and case 2) and
  returns normally; the token stays where it was and \<open>simulate\<close> goes on.
\<close>

theorem activity_unknown_resource_counterexample:
  "getResource (addResource ''B'' 1 (Finite 10) ProcessContext_new) ''A'' = None
   \<and> \<not> isl (execute 3 (serialElements (Finite 10)) (Some 0)
        (initialState (Token_new 1 (Finite 0)) (addResource ''B'' 1 (Finite 10) ProcessContext_new)))
   \<and> cerr (projr (execute 3 (serialElements (Finite 10)) (Some 0)
        (initialState (Token_new 1 (Finite 0)) (addResource ''B'' 1 (Finite 10) ProcessContext_new))))
       = [ResourceNotFoundLine ''A'']
   \<and> cerr (projr (execute 3 (serialElements (Finite 10)) (Some 0)
        (initialState (Token_new 2 (Finite 0)) (addResource ''B'' 1 (Finite 10) ProcessContext_new))))
       = [ResourceNotFoundLine ''A'']
   \<and> \<not> isl (simulate 3 2 (Finite 1)
        (initialRun (serialElements (Finite 10)) (addResource ''B'' 1 (Finite 10) ProcessContext_new)))
   \<and> map completed (tokens (process (projr (simulate 3 2 (Finite 1)
        (initialRun (serialElements (Finite 10)) (addResource ''B'' 1 (Finite 10) ProcessContext_new))))))
       = [False, False]
   \<and> tokensCompleted (getContext (process (projr (simulate 3 2 (Finite 1)
        (initialRun (serialElements (Finite 10)) (addResource ''B'' 1 (Finite 10) ProcessContext_new)))))) = 0"
  by (simp add: engine_eval serialElements_def createTokens_2)

text \<open>
  Claim C8, amended: an activity whose resource name is not registered in the context
  writes one line naming the resource (not the case) to the error stream and returns
  normally to its caller. It does not advance the token's clock, touches no resource and
  does not execute its outgoing element, and no error value reaches the caller.
\<close>

theorem activity_unknown_resource:
  assumes "deref es p = Some (ActivityE a)"
    and "getResource (ctx s) (resourceName a) = None"
  shows "execute (Suc depth) es p s
           = Inr (s\<lparr>cerr := cerr s @ [ResourceNotFoundLine (resourceName a)]\<rparr>)"
  using assms(2) by (simp add: assms(1) Activity_execute_def)

theorem activity_unknown_resource_witness:
  "deref (serialElements (Finite 10)) (Some 1)
     = Some (ActivityE (connectTo (Some 2) (Activity_new ''work'' ''Work'' (Finite 10) ''A'')))
   \<and> getResource (ctx (initialState (Token_new 1 (Finite 0)) (addResource ''B'' 1 (Finite 10) ProcessContext_new)))
        (resourceName (connectTo (Some 2) (Activity_new ''work'' ''Work'' (Finite 10) ''A''))) = None
   \<and> execute 1 (serialElements (Finite 10)) (Some 1)
        (initialState (Token_new 1 (Finite 0)) (addResource ''B'' 1 (Finite 10) ProcessContext_new))
       = Inr \<lparr>tok = Token_new 1 (Finite 0), ctx = addResource ''B'' 1 (Finite 10) ProcessContext_new,
              cerr = [ResourceNotFoundLine ''A''], evaluated = []\<rparr>"
  using activity_unknown_resource [of "serialElements (Finite 10)" "Some 1"
      "connectTo (Some 2) (Activity_new ''work'' ''Work'' (Finite 10) ''A'')"
      "initialState (Token_new 1 (Finite 0)) (addResource ''B'' 1 (Finite 10) ProcessContext_new)" 0]
  by (simp add: serialElements_def deref_def connectTo_def Activity_new_def initialState_def
      getResource_def addResource_def ProcessContext_new_def)

lemma idle_after_activity:
  assumes "getResource c n = Some r" and "currentlyUsed r = 0"
  shows "idle n (putResource n (release (addUsage d (acquire (waitLoop r)))) c)"
  using assms
  by (simp add: idle_def getResource_def putResource_def release_def addUsage_def acquire_def
      waitLoop_def isAvailable_def)

lemma serial_case:
  assumes idle: "idle ''A'' c" and inv: "countsInv c"
    and st: "tokensStarted c < INT_MAX" and co: "tokensCompleted c < INT_MAX"
  shows "\<exists>c'. execute (Suc (Suc (Suc m))) (serialElements d) (Some 0)
              \<lparr>tok = t, ctx = c, cerr = l, evaluated = e\<rparr>
            = Inr \<lparr>tok = complete ''Done'' (advanceTime d t), ctx = c', cerr = l, evaluated = e\<rparr>
          \<and> idle ''A'' c' \<and> countsInv c'
          \<and> tokensStarted c' = tokensStarted c + 1
          \<and> tokensCompleted c' = tokensCompleted c + 1"
proof -
  from idle obtain r where r: "getResource c ''A'' = Some r" and r0: "currentlyUsed r = 0"
    by (auto simp: idle_def split: option.splits)
  define c1 where "c1 = c\<lparr>tokensStarted := tokensStarted c + 1\<rparr>"
  define c2 where "c2 = putResource ''A'' (release (addUsage d (acquire (waitLoop r)))) c1"
  have s1: "tokenStarted c = Inr c1"
    using st by (simp add: tokenStarted_def incr_def c1_def)
  have r1: "getResource c1 ''A'' = Some r"
    using r by (simp add: c1_def getResource_def)
  have i2: "idle ''A'' c2"
    unfolding c2_def using r1 r0 by (rule idle_after_activity)
  have inv2: "countsInv c2"
    using inv by (simp add: countsInv_def histogramTotal_def c2_def c1_def putResource_def)
  have co2: "tokensCompleted c2 = tokensCompleted c"
    and st2: "tokensStarted c2 = tokensStarted c + 1"
    by (simp_all add: c2_def c1_def putResource_def)
  from inv2 co co2 obtain c3 where c3: "tokenCompleted ''Done'' c2 = Inr c3"
    using tokenCompleted_defined [of c2 "''Done''"] by auto
  have "idle ''A'' c3"
    using i2 tokenCompleted_resources [OF c3] by (simp add: idle_def getResource_def)
  moreover have "countsInv c3" using inv2 c3 by (rule tokenCompleted_countsInv)
  moreover have "tokensStarted c3 = tokensStarted c + 1"
    using tokenCompleted_Inr(3) [OF c3] st2 by simp
  moreover have "tokensCompleted c3 = tokensCompleted c + 1"
    using tokenCompleted_Inr(1) [OF c3] co2 by simp
  moreover have "execute (Suc (Suc (Suc m))) (serialElements d) (Some 0)
              \<lparr>tok = t, ctx = c, cerr = l, evaluated = e\<rparr>
            = Inr \<lparr>tok = complete ''Done'' (advanceTime d t), ctx = c3, cerr = l, evaluated = e\<rparr>"
    using s1 r1 c3
    by (simp add: serialElements_def Event_new_def Activity_new_def connectTo_def
        deref_def Event_execute_def Activity_execute_def c2_def)
  ultimately show ?thesis by blast
qed

lemma length_createTokens: "length (createTokens i n t iv) = nat (n - i)"
proof (induction i n t iv rule: createTokens.induct)
  case (1 i n t iv)
  show ?case
  proof (cases "i < n")
    case True
    then have "length (createTokens i n t iv) = Suc (nat (n - (i + 1)))"
      using "1.IH" by (subst createTokens.simps) simp
    then show ?thesis using True by simp
  next
    case False
    then show ?thesis by (subst createTokens.simps) simp
  qed
qed

lemma nth_createTokens:
  "k < nat (n - i) \<Longrightarrow>
   createTokens i n t iv ! k = Token_new (i + 1 + int k) (((\<lambda>c. dadd c iv) ^^ k) t)"
proof (induction i n t iv arbitrary: k rule: createTokens.induct)
  case (1 i n t iv)
  then have lt: "i < n" by simp
  show ?case
  proof (cases k)
    case 0
    then show ?thesis using lt by (subst createTokens.simps) simp
  next
    case (Suc k')
    then have "k' < nat (n - (i + 1))" using "1.prems" by simp
    then have "createTokens (i + 1) n (dadd t iv) iv ! k'
        = Token_new (i + 1 + 1 + int k') (((\<lambda>c. dadd c iv) ^^ k') (dadd t iv))"
      using "1.IH" lt by simp
    moreover have "((\<lambda>c. dadd c iv) ^^ k') (dadd t iv) = ((\<lambda>c. dadd c iv) ^^ Suc k') t"
      by (simp only: funpow_Suc_right o_apply)
    ultimately show ?thesis using lt Suc
      by (subst createTokens.simps) (simp del: funpow.simps add: algebra_simps)
  qed
qed

lemma executeToken_serial:
  assumes inv: "serialInv d w"
    and st: "tokensStarted (getContext (process w)) < INT_MAX"
    and co: "tokensCompleted (getContext (process w)) < INT_MAX"
  shows "\<exists>w'. executeToken (Suc (Suc (Suc m))) t w
              = Inr (complete ''Done'' (advanceTime d t), w')
          \<and> serialInv d w'
          \<and> cerr_out w' = cerr_out w
          \<and> tokensStarted (getContext (process w')) = tokensStarted (getContext (process w)) + 1
          \<and> tokensCompleted (getContext (process w')) = tokensCompleted (getContext (process w)) + 1"
proof -
  let ?c = "getContext (process w)"
  from inv have i: "idle ''A'' ?c" and ci: "countsInv ?c"
    and es: "elements (process w) = serialElements d" and se: "startElement (process w) = Some 0"
    by (simp_all add: serialInv_def)
  from serial_case [OF i ci st co, of m d t "cerr_out w" "evaluated_out w"]
  obtain c' where ex: "execute (Suc (Suc (Suc m))) (serialElements d) (Some 0)
         \<lparr>tok = t, ctx = ?c, cerr = cerr_out w, evaluated = evaluated_out w\<rparr>
       = Inr \<lparr>tok = complete ''Done'' (advanceTime d t), ctx = c',
              cerr = cerr_out w, evaluated = evaluated_out w\<rparr>"
    and c': "idle ''A'' c'" "countsInv c'" "tokensStarted c' = tokensStarted ?c + 1"
      "tokensCompleted c' = tokensCompleted ?c + 1"
    by blast
  show ?thesis
    using ex c' es se by (simp add: executeToken_def Let_def serialInv_def)
qed

lemma executeTokens_serial:
  assumes "serialInv d w"
    and "tokensStarted (getContext (process w)) + int (length ts) \<le> INT_MAX"
    and "tokensCompleted (getContext (process w)) + int (length ts) \<le> INT_MAX"
  shows "\<exists>w'. executeTokens (Suc (Suc (Suc m))) ts w
              = Inr (map (\<lambda>t. complete ''Done'' (advanceTime d t)) ts, w')
          \<and> cerr_out w' = cerr_out w"
  using assms
proof (induction ts arbitrary: w)
  case Nil
  then show ?case by simp
next
  case (Cons t ts)
  have "tokensStarted (getContext (process w)) < INT_MAX"
    and "tokensCompleted (getContext (process w)) < INT_MAX"
    using Cons.prems(2,3) by simp_all
  with Cons.prems(1) obtain w1
    where w1: "executeToken (Suc (Suc (Suc m))) t w = Inr (complete ''Done'' (advanceTime d t), w1)"
    and inv1: "serialInv d w1"
    and ce1: "cerr_out w1 = cerr_out w"
    and st1: "tokensStarted (getContext (process w1)) = tokensStarted (getContext (process w)) + 1"
    and co1: "tokensCompleted (getContext (process w1)) = tokensCompleted (getContext (process w)) + 1"
    using executeToken_serial by blast
  have "tokensStarted (getContext (process w1)) + int (length ts) \<le> INT_MAX"
    and "tokensCompleted (getContext (process w1)) + int (length ts) \<le> INT_MAX"
    using st1 co1 Cons.prems(2,3) by simp_all
  with Cons.IH [OF inv1]
  obtain w' where w': "executeTokens (Suc (Suc (Suc m))) ts w1
              = Inr (map (\<lambda>t. complete ''Done'' (advanceTime d t)) ts, w')"
    and ce': "cerr_out w' = cerr_out w1"
    by blast
  have "executeTokens (Suc (Suc (Suc m))) (t # ts) w
      = Inr (map (\<lambda>t. complete ''Done'' (advanceTime d t)) (t # ts), w')"
    using w1 w' by simp
  moreover have "cerr_out w' = cerr_out w" using ce' ce1 by simp
  ultimately show ?case by blast
qed

lemma serialInv_start:
  "serialInv d ((initialRun (serialElements d) (addResource ''A'' capacity cost ProcessContext_new))
      \<lparr>process := (process (initialRun (serialElements d)
                     (addResource ''A'' capacity cost ProcessContext_new)))\<lparr>tokens := ts\<rparr>\<rparr>)"
  by (simp add: serialInv_def initialRun_def idle_def getResource_def addResource_def
      ProcessContext_new_def Resource_new_def countsInv_def histogramTotal_def)

lemma simulate_serial:
  assumes "n \<le> INT_MAX" and "3 \<le> depth"
  shows "\<exists>w. simulate depth n iv
               (initialRun (serialElements d) (addResource ''A'' capacity cost ProcessContext_new))
             = Inr w
          \<and> tokens (process w)
              = map (\<lambda>t. complete ''Done'' (advanceTime d t)) (createTokens 0 n (Finite 0) iv)
          \<and> cerr_out w = []"
proof -
  let ?ts = "createTokens 0 n (Finite 0) iv"
  let ?w0 = "initialRun (serialElements d) (addResource ''A'' capacity cost ProcessContext_new)"
  let ?w1 = "?w0\<lparr>process := (process ?w0)\<lparr>tokens := ?ts\<rparr>\<rparr>"
  from assms(2) obtain m where "depth = 3 + m"
    by (auto simp: le_iff_add)
  then have m: "depth = Suc (Suc (Suc m))" by simp
  have b: "int (length ?ts) \<le> INT_MAX"
    using assms(1) by (simp add: length_createTokens INT_MAX_def)
  have A: "tokensStarted (getContext (process ?w1)) + int (length ?ts) \<le> INT_MAX"
    and B: "tokensCompleted (getContext (process ?w1)) + int (length ?ts) \<le> INT_MAX"
    using b by (simp_all add: initialRun_def addResource_def ProcessContext_new_def)
  have "\<exists>w'. executeTokens (Suc (Suc (Suc m))) ?ts ?w1
              = Inr (map (\<lambda>t. complete ''Done'' (advanceTime d t)) ?ts, w')
          \<and> cerr_out w' = cerr_out ?w1"
    by (rule executeTokens_serial [OF serialInv_start A B])
  then obtain w' where "executeTokens (Suc (Suc (Suc m))) ?ts ?w1
              = Inr (map (\<lambda>t. complete ''Done'' (advanceTime d t)) ?ts, w')"
    and "cerr_out w' = []"
    by (auto simp: initialRun_def)
  then show ?thesis by (simp add: simulate_def Let_def m)
qed

lemma execute_activity:
  assumes "deref es p = Some (ActivityE a)"
    and "getResource (ctx s) (resourceName a) = Some r"
  shows "execute (Suc depth) es p s
           = (if getOutgoing a \<noteq> [] then execute depth es (getOutgoing a ! 0) else Inr)
               (s\<lparr>tok := advanceTime (processingTime a) (tok s),
                  ctx := putResource (resourceName a)
                           (release (addUsage (processingTime a) (acquire r))) (ctx s)\<rparr>)"
  using assms(2) by (simp add: assms(1) Activity_execute_def waitLoop_def)

text \<open>
  Claim C2, as stated: an activity waits for a free slot and never goes on while the
  capacity is exhausted, so two cases on a resource of capacity 1 are serialised. In the
  code an activity that finds the only slot of \<open>A\<close> taken goes on at once (its token's
  clock moves from 0 to 10), and with two cases arriving at time 0 both activities run
  from 0 to 10 on the simulated clock; the second would end at 20 if it waited.
\<close>

theorem activity_wait_counterexample:
  "\<not> isAvailable (acquire (Resource_new ''A'' 1 (Finite 10)))
   \<and> currentTime (tok (projr (execute 2 (serialElements (Finite 10)) (Some 1)
        (initialState (Token_new 2 (Finite 0))
           (putResource ''A'' (acquire (Resource_new ''A'' 1 (Finite 10)))
              (addResource ''A'' 1 (Finite 10) ProcessContext_new)))))) = Finite 10
   \<and> map startTime (tokens (process (projr (simulate 3 2 (Finite 0)
        (initialRun (serialElements (Finite 10))
           (addResource ''A'' 1 (Finite 10) ProcessContext_new))))))
       = [Finite 0, Finite 0]
   \<and> map currentTime (tokens (process (projr (simulate 3 2 (Finite 0)
        (initialRun (serialElements (Finite 10))
           (addResource ''A'' 1 (Finite 10) ProcessContext_new))))))
       = [Finite 10, Finite 10]"
  by (simp add: engine_eval serialElements_def createTokens_2)

text \<open>
  Claim C2, amended: an activity never waits. \<open>acquire\<close> adds one to the in-use count
  when it is below the capacity and otherwise returns at once, leaving it as it is; in
  both cases the activity goes on immediately: it advances the token's clock by its
  processing time (a binary64 sum), records the usage, calls \<open>release\<close> and continues
  with its outgoing element. \<open>simulate\<close> runs the cases one after another, each to its
  end. So in a process of one activity of duration \<open>d\<close> on a resource of any capacity,
  with any number of cases and any arrival interval, and a call depth of at least 3,
  every case ends as the token it was created as, completed, with \<open>advanceTime d\<close>
  applied once: its clock is the binary64 sum of its own arrival time and \<open>d\<close>,
  whatever the other cases do. Case \<open>k\<close> (from 0) arrives at the time obtained from 0
  by adding the interval \<open>k\<close> times in binary64; with interval 0 all cases arrive at 0
  and all activities run over the same simulated interval.
\<close>

theorem activity_never_waits:
  "(deref es p = Some (ActivityE a) \<and> getResource (ctx s) (resourceName a) = Some r \<longrightarrow>
      execute (Suc depth) es p s
        = (if getOutgoing a \<noteq> [] then execute depth es (getOutgoing a ! 0) else Inr)
            (s\<lparr>tok := advanceTime (processingTime a) (tok s),
               ctx := putResource (resourceName a)
                        (release (addUsage (processingTime a) (acquire r))) (ctx s)\<rparr>))
   \<and> acquire r = (if currentlyUsed r < totalAvailable r
                  then r\<lparr>currentlyUsed := currentlyUsed r + 1\<rparr> else r)
   \<and> (n \<le> INT_MAX \<and> 3 \<le> depth \<longrightarrow>
        (\<exists>w. simulate depth n iv
               (initialRun (serialElements d) (addResource ''A'' capacity cost ProcessContext_new))
             = Inr w
           \<and> tokens (process w)
               = map (\<lambda>t. complete ''Done'' (advanceTime d t))
                   (createTokens 0 n (Finite 0) iv)))
   \<and> (k < nat n \<longrightarrow>
        createTokens 0 n (Finite 0) iv ! k
          = Token_new (1 + int k) (((\<lambda>c. dadd c iv) ^^ k) (Finite 0)))"
proof (intro conjI impI)
  assume "deref es p = Some (ActivityE a) \<and> getResource (ctx s) (resourceName a) = Some r"
  then show "execute (Suc depth) es p s
        = (if getOutgoing a \<noteq> [] then execute depth es (getOutgoing a ! 0) else Inr)
            (s\<lparr>tok := advanceTime (processingTime a) (tok s),
               ctx := putResource (resourceName a)
                        (release (addUsage (processingTime a) (acquire r))) (ctx s)\<rparr>)"
    by (intro execute_activity) simp_all
next
  show "acquire r = (if currentlyUsed r < totalAvailable r
                  then r\<lparr>currentlyUsed := currentlyUsed r + 1\<rparr> else r)"
    by (simp add: acquire_def isAvailable_def)
next
  assume "n \<le> INT_MAX \<and> 3 \<le> depth"
  then have "n \<le> INT_MAX" and "3 \<le> depth" by simp_all
  then show "\<exists>w. simulate depth n iv
               (initialRun (serialElements d) (addResource ''A'' capacity cost ProcessContext_new))
             = Inr w
           \<and> tokens (process w)
               = map (\<lambda>t. complete ''Done'' (advanceTime d t))
                   (createTokens 0 n (Finite 0) iv)"
    using simulate_serial by blast
next
  assume "k < nat n"
  then show "createTokens 0 n (Finite 0) iv ! k
          = Token_new (1 + int k) (((\<lambda>c. dadd c iv) ^^ k) (Finite 0))"
    using nth_createTokens [of k n 0 "Finite 0" iv] by simp
qed

theorem activity_never_waits_witness:
  "deref (serialElements (Finite 10)) (Some 1)
     = Some (ActivityE (connectTo (Some 2) (Activity_new ''work'' ''Work'' (Finite 10) ''A'')))
   \<and> getResource (putResource ''A'' (acquire (Resource_new ''A'' 1 (Finite 10)))
         (addResource ''A'' 1 (Finite 10) ProcessContext_new)) ''A''
       = Some (acquire (Resource_new ''A'' 1 (Finite 10)))
   \<and> \<not> isAvailable (acquire (Resource_new ''A'' 1 (Finite 10)))
   \<and> execute 2 (serialElements (Finite 10)) (Some 1)
        (initialState (Token_new 2 (Finite 0))
           (putResource ''A'' (acquire (Resource_new ''A'' 1 (Finite 10)))
              (addResource ''A'' 1 (Finite 10) ProcessContext_new)))
       = execute 1 (serialElements (Finite 10)) (Some 2)
           \<lparr>tok = advanceTime (Finite 10) (Token_new 2 (Finite 0)),
            ctx = putResource ''A''
                    (release (addUsage (Finite 10)
                       (acquire (acquire (Resource_new ''A'' 1 (Finite 10))))))
                    (addResource ''A'' 1 (Finite 10) ProcessContext_new),
            cerr = [], evaluated = []\<rparr>
   \<and> (2::int) \<le> INT_MAX \<and> (3::nat) \<le> 3 \<and> (1::nat) < nat 2
   \<and> map currentTime (tokens (process (projr (simulate 3 2 (Finite 0)
        (initialRun (serialElements (Finite 10))
           (addResource ''A'' 1 (Finite 10) ProcessContext_new))))))
       = [Finite 10, Finite 10]
   \<and> createTokens 0 2 (Finite 0) (Finite 0) ! 1 = Token_new 2 (Finite 0)"
  using activity_never_waits [of "serialElements (Finite 10)" "Some 1"
      "connectTo (Some 2) (Activity_new ''work'' ''Work'' (Finite 10) ''A'')"
      "initialState (Token_new 2 (Finite 0))
         (putResource ''A'' (acquire (Resource_new ''A'' 1 (Finite 10)))
            (addResource ''A'' 1 (Finite 10) ProcessContext_new))"
      "acquire (Resource_new ''A'' 1 (Finite 10))" "Suc 0" 2 "Finite 0" "Finite 10" 1
      "Finite 10" 1]
    activity_never_waits [of "serialElements (Finite 10)" "Some 1"
      "connectTo (Some 2) (Activity_new ''work'' ''Work'' (Finite 10) ''A'')"
      "initialState (Token_new 2 (Finite 0))
         (putResource ''A'' (acquire (Resource_new ''A'' 1 (Finite 10)))
            (addResource ''A'' 1 (Finite 10) ProcessContext_new))"
      "acquire (Resource_new ''A'' 1 (Finite 10))" 3 2 "Finite 0" "Finite 10" 1
      "Finite 10" 1]
  by (simp add: engine_eval serialElements_def createTokens_2)

subsection \<open>Properties of the parallel gateway\<close>

lemma deref_branch:
  "i < length ds \<Longrightarrow>
   deref (forkJoinElements ds) (Some (Suc (Suc (Suc i))))
     = Some (ActivityE (connectTo (Some 1) (Activity_new ''branch'' ''Branch'' (ds ! i) ''A'')))"
  by (simp add: deref_def forkJoinElements_def)

lemma deref_join:
  "deref (forkJoinElements ds) (Some (Suc 0))
     = Some (ParallelGatewayE (connectTo (Some 2) (ParallelGateway_new ''join'' ''Join'' False)))"
  by (simp add: deref_def forkJoinElements_def)

lemma deref_end:
  "deref (forkJoinElements ds) (Some 2) = Some (EventE (Event_new ''end'' ''Done'' False))"
  by (simp add: deref_def forkJoinElements_def)

lemma deref_fork:
  "deref (forkJoinElements ds) (Some 0)
     = Some (ParallelGatewayE ((ParallelGateway_new ''fork'' ''Fork'' True)
          \<lparr>getOutgoing := map (\<lambda>i. Some (3 + i)) [0..<length ds]\<rparr>))"
  by (simp add: deref_def forkJoinElements_def)

lemma branch_case:
  assumes i: "i < length ds" and inv: "branchInv s" and co: "tokensCompleted (ctx s) < INT_MAX"
  shows "\<exists>s'. execute (Suc (Suc (Suc m))) (forkJoinElements ds) (Some (3 + i)) s = Inr s'
          \<and> tok s' = complete ''Done'' (advanceTime (ds ! i) (tok s))
          \<and> branchInv s'
          \<and> tokensCompleted (ctx s') = tokensCompleted (ctx s) + 1
          \<and> reasonCount (endReasons (ctx s')) ''Done''
               = reasonCount (endReasons (ctx s)) ''Done'' + 1"
proof -
  from inv obtain r where r: "getResource (ctx s) ''A'' = Some r" and ci: "countsInv (ctx s)"
    by (auto simp: branchInv_def)
  define c2 where
    "c2 = putResource ''A'' (release (addUsage (ds ! i) (acquire (waitLoop r)))) (ctx s)"
  have inv2: "countsInv c2"
    using ci by (simp add: countsInv_def histogramTotal_def c2_def putResource_def)
  have co2: "tokensCompleted c2 = tokensCompleted (ctx s)"
    and er2: "endReasons c2 = endReasons (ctx s)"
    and rs2: "getResource c2 ''A'' \<noteq> None"
    by (simp_all add: c2_def putResource_def getResource_def)
  from inv2 co co2 obtain c3 where c3: "tokenCompleted ''Done'' c2 = Inr c3"
    using tokenCompleted_defined [of c2 "''Done''"] by auto
  define s' where "s' = s\<lparr>tok := complete ''Done'' (advanceTime (ds ! i) (tok s)), ctx := c3\<rparr>"
  have "execute (Suc (Suc (Suc m))) (forkJoinElements ds) (Some (3 + i)) s = Inr s'"
    using r c3 deref_branch [OF i]
    by (simp add: numeral_3_eq_3 deref_join deref_end Activity_new_def ParallelGateway_new_def
        Event_new_def connectTo_def Activity_execute_def ParallelGateway_execute_def
        Event_execute_def c2_def s'_def)
  moreover have "tok s' = complete ''Done'' (advanceTime (ds ! i) (tok s))"
    by (simp add: s'_def)
  moreover have "branchInv s'"
    using rs2 tokenCompleted_resources [OF c3] tokenCompleted_countsInv [OF inv2 c3]
    by (simp add: branchInv_def s'_def getResource_def)
  moreover have "tokensCompleted (ctx s') = tokensCompleted (ctx s) + 1"
    using tokenCompleted_Inr(1) [OF c3] co2 by (simp add: s'_def)
  moreover have "reasonCount (endReasons (ctx s')) ''Done''
               = reasonCount (endReasons (ctx s)) ''Done'' + 1"
    using tokenCompleted_Inr(2) [OF c3] er2 by (simp add: s'_def reasonCount_update)
  ultimately show ?thesis by blast
qed

lemma forEach_branches:
  assumes "\<forall>i\<in>set js. i < length ds" and "branchInv s"
    and "tokensCompleted (ctx s) + int (length js) \<le> INT_MAX"
  shows "\<exists>s'. forEach (execute (Suc (Suc (Suc m))) (forkJoinElements ds))
                 (map (\<lambda>i. Some (3 + i)) js) s = Inr s'
          \<and> branchInv s'
          \<and> currentTime (tok s') = foldl dadd (currentTime (tok s)) (map (\<lambda>i. ds ! i) js)
          \<and> (js \<noteq> [] \<longrightarrow> completed (tok s') \<and> endReason (tok s') = ''Done'')
          \<and> tokensCompleted (ctx s') = tokensCompleted (ctx s) + int (length js)
          \<and> reasonCount (endReasons (ctx s')) ''Done''
               = reasonCount (endReasons (ctx s)) ''Done'' + int (length js)"
  using assms
proof (induction js arbitrary: s)
  case Nil
  then show ?case by simp
next
  case (Cons j js)
  from Cons.prems have j: "j < length ds" and js: "\<forall>i\<in>set js. i < length ds"
    and co: "tokensCompleted (ctx s) < INT_MAX"
    by simp_all
  from branch_case [OF j Cons.prems(2) co, of m]
  obtain s1 where s1: "execute (Suc (Suc (Suc m))) (forkJoinElements ds) (Some (3 + j)) s = Inr s1"
    and t1: "tok s1 = complete ''Done'' (advanceTime (ds ! j) (tok s))"
    and inv1: "branchInv s1"
    and co1: "tokensCompleted (ctx s1) = tokensCompleted (ctx s) + 1"
    and rc1: "reasonCount (endReasons (ctx s1)) ''Done''
               = reasonCount (endReasons (ctx s)) ''Done'' + 1"
    by blast
  have "tokensCompleted (ctx s1) + int (length js) \<le> INT_MAX"
    using co1 Cons.prems(3) by simp
  from Cons.IH [OF js inv1 this]
  obtain s' where s': "forEach (execute (Suc (Suc (Suc m))) (forkJoinElements ds))
                 (map (\<lambda>i. Some (3 + i)) js) s1 = Inr s'"
    and inv': "branchInv s'"
    and ct: "currentTime (tok s') = foldl dadd (currentTime (tok s1)) (map (\<lambda>i. ds ! i) js)"
    and cm: "js \<noteq> [] \<longrightarrow> completed (tok s') \<and> endReason (tok s') = ''Done''"
    and co': "tokensCompleted (ctx s') = tokensCompleted (ctx s1) + int (length js)"
    and rc': "reasonCount (endReasons (ctx s')) ''Done''
               = reasonCount (endReasons (ctx s1)) ''Done'' + int (length js)"
    by blast
  have "forEach (execute (Suc (Suc (Suc m))) (forkJoinElements ds))
                 (map (\<lambda>i. Some (3 + i)) (j # js)) s = Inr s'"
    using s1 s' by simp
  moreover have "currentTime (tok s')
      = foldl dadd (currentTime (tok s)) (map (\<lambda>i. ds ! i) (j # js))"
    using ct t1 by (simp add: complete_def advanceTime_def)
  moreover have "completed (tok s') \<and> endReason (tok s') = ''Done''"
  proof (cases js)
    case Nil
    then have "s' = s1" using s' by simp
    then show ?thesis using t1 by (simp add: complete_def)
  next
    case (Cons a list)
    then show ?thesis using cm by simp
  qed
  moreover have "tokensCompleted (ctx s') = tokensCompleted (ctx s) + int (length (j # js))"
    using co' co1 by simp
  moreover have "reasonCount (endReasons (ctx s')) ''Done''
               = reasonCount (endReasons (ctx s)) ''Done'' + int (length (j # js))"
    using rc' rc1 by simp
  ultimately show ?case using inv' by blast
qed

lemma fork_join_run:
  assumes "branchInv s" and "tokensCompleted (ctx s) + int (length ds) \<le> INT_MAX"
    and "4 \<le> depth"
  shows "\<exists>s'. execute depth (forkJoinElements ds) (Some 0) s = Inr s'
          \<and> currentTime (tok s') = foldl dadd (currentTime (tok s)) ds
          \<and> (ds \<noteq> [] \<longrightarrow> completed (tok s') \<and> endReason (tok s') = ''Done'')
          \<and> tokensCompleted (ctx s') = tokensCompleted (ctx s) + int (length ds)
          \<and> reasonCount (endReasons (ctx s')) ''Done''
               = reasonCount (endReasons (ctx s)) ''Done'' + int (length ds)"
proof -
  from assms(3) obtain m where "depth = 4 + m"
    by (auto simp: le_iff_add)
  then have m: "depth = Suc (Suc (Suc (Suc m)))" by simp
  have all: "\<forall>i\<in>set [0..<length ds]. i < length ds" by simp
  have len: "tokensCompleted (ctx s) + int (length [0..<length ds]) \<le> INT_MAX"
    using assms(2) by simp
  from forEach_branches [OF all assms(1) len, of m]
  obtain s' where s': "forEach (execute (Suc (Suc (Suc m))) (forkJoinElements ds))
                 (map (\<lambda>i. Some (3 + i)) [0..<length ds]) s = Inr s'"
    and ct: "currentTime (tok s')
        = foldl dadd (currentTime (tok s)) (map (\<lambda>i. ds ! i) [0..<length ds])"
    and cm: "[0..<length ds] \<noteq> [] \<longrightarrow> completed (tok s') \<and> endReason (tok s') = ''Done''"
    and co: "tokensCompleted (ctx s') = tokensCompleted (ctx s) + int (length [0..<length ds])"
    and rc: "reasonCount (endReasons (ctx s')) ''Done''
               = reasonCount (endReasons (ctx s)) ''Done'' + int (length [0..<length ds])"
    by blast
  have ex: "execute depth (forkJoinElements ds) (Some 0) s = Inr s'"
    using s' by (simp add: m deref_fork ParallelGateway_new_def ParallelGateway_execute_def)
  have nth: "map (\<lambda>i. ds ! i) [0..<length ds] = ds" by (rule map_nth)
  have "currentTime (tok s') = foldl dadd (currentTime (tok s)) ds"
    using ct by (simp only: nth)
  moreover have "ds \<noteq> [] \<longrightarrow> completed (tok s') \<and> endReason (tok s') = ''Done''"
    using cm by simp
  moreover have "tokensCompleted (ctx s') = tokensCompleted (ctx s) + int (length ds)"
    using co by simp
  moreover have "reasonCount (endReasons (ctx s')) ''Done''
               = reasonCount (endReasons (ctx s)) ''Done'' + int (length ds)"
    using rc by simp
  ultimately show ?thesis using ex by blast
qed

text \<open>
  Claim C3, as stated: the join continues once per case, after all branches have
  arrived, with the maximum of the branch clocks. In the code, a fork into three
  branches of 10, 20 and 30 minutes that meet at a join before an end event leaves the
  one token (started at 0) at 60 minutes, beyond the 30 minutes of the longest branch,
  and the end event after the join runs three times.
\<close>

theorem parallel_join_counterexample:
  "currentTime (tok (projr (execute 4 (forkJoinElements [Finite 10, Finite 20, Finite 30]) (Some 0)
      (initialState (Token_new 1 (Finite 0)) (addResource ''A'' 3 (Finite 10) ProcessContext_new)))))
     = Finite 60
   \<and> dless (Finite (max 10 (max 20 30))) (Finite 60)
   \<and> tokensCompleted (ctx (projr (execute 4 (forkJoinElements [Finite 10, Finite 20, Finite 30])
      (Some 0)
      (initialState (Token_new 1 (Finite 0)) (addResource ''A'' 3 (Finite 10) ProcessContext_new)))))
     = 3
   \<and> endReasons (ctx (projr (execute 4 (forkJoinElements [Finite 10, Finite 20, Finite 30])
      (Some 0)
      (initialState (Token_new 1 (Finite 0)) (addResource ''A'' 3 (Finite 10) ProcessContext_new)))))
       = [(''Done'', 3)]"
  by (simp add: engine_eval forkJoinElements_def eval_nat_numeral)

text \<open>
  Claim C3, amended: a diverging parallel gateway executes its outgoing elements one
  after another, in order, on the one token it received; a converging parallel gateway
  keeps no state and hands every arrival straight on to its first outgoing element. So
  when a fork's branches are activities of durations \<open>ds\<close> (on a registered resource)
  that all lead to one join followed by an end event, and the call depth is at least 4,
  the execution returns normally, the end event after the join has run once per branch
  (\<open>tokensCompleted\<close> and the end reason's count grow by the number of branches), and the
  token's clock ends at the value obtained from its value at the fork by adding the
  durations one after another, in branch order, each sum rounded to binary64.
\<close>

theorem parallel_gateway_sequential:
  "(deref es p = Some (ParallelGatewayE g) \<and> isDivergence g \<longrightarrow>
      execute (Suc depth) es p s = forEach (execute depth es) (getOutgoing g) s)
   \<and> (deref es p = Some (ParallelGatewayE g) \<and> \<not> isDivergence g \<and> getOutgoing g \<noteq> [] \<longrightarrow>
      execute (Suc depth) es p s = execute depth es (getOutgoing g ! 0) s)
   \<and> (getResource (ctx s) ''A'' \<noteq> None \<and> countsInv (ctx s)
        \<and> tokensCompleted (ctx s) + int (length ds) \<le> INT_MAX \<and> 4 \<le> depth \<longrightarrow>
      (\<exists>s'. execute depth (forkJoinElements ds) (Some 0) s = Inr s'
          \<and> currentTime (tok s') = foldl dadd (currentTime (tok s)) ds
          \<and> (ds \<noteq> [] \<longrightarrow> completed (tok s') \<and> endReason (tok s') = ''Done'')
          \<and> tokensCompleted (ctx s') = tokensCompleted (ctx s) + int (length ds)
          \<and> reasonCount (endReasons (ctx s')) ''Done''
               = reasonCount (endReasons (ctx s)) ''Done'' + int (length ds)))"
proof (intro conjI impI)
  assume "deref es p = Some (ParallelGatewayE g) \<and> isDivergence g"
  then show "execute (Suc depth) es p s = forEach (execute depth es) (getOutgoing g) s"
    by (simp add: ParallelGateway_execute_def)
next
  assume "deref es p = Some (ParallelGatewayE g) \<and> \<not> isDivergence g \<and> getOutgoing g \<noteq> []"
  then show "execute (Suc depth) es p s = execute depth es (getOutgoing g ! 0) s"
    by (simp add: ParallelGateway_execute_def)
next
  assume a: "getResource (ctx s) ''A'' \<noteq> None \<and> countsInv (ctx s)
        \<and> tokensCompleted (ctx s) + int (length ds) \<le> INT_MAX \<and> 4 \<le> depth"
  then have "branchInv s" by (simp add: branchInv_def)
  moreover from a have "tokensCompleted (ctx s) + int (length ds) \<le> INT_MAX" by simp
  moreover from a have "4 \<le> depth" by simp
  ultimately show "\<exists>s'. execute depth (forkJoinElements ds) (Some 0) s = Inr s'
          \<and> currentTime (tok s') = foldl dadd (currentTime (tok s)) ds
          \<and> (ds \<noteq> [] \<longrightarrow> completed (tok s') \<and> endReason (tok s') = ''Done'')
          \<and> tokensCompleted (ctx s') = tokensCompleted (ctx s) + int (length ds)
          \<and> reasonCount (endReasons (ctx s')) ''Done''
               = reasonCount (endReasons (ctx s)) ''Done'' + int (length ds)"
    by (rule fork_join_run)
qed

theorem parallel_gateway_sequential_witness:
  "deref (forkJoinElements [Finite 10, Finite 20, Finite 30]) (Some 0)
     = Some (ParallelGatewayE ((ParallelGateway_new ''fork'' ''Fork'' True)
          \<lparr>getOutgoing := [Some 3, Some 4, Some 5]\<rparr>))
   \<and> execute (Suc 4) (forkJoinElements [Finite 10, Finite 20, Finite 30]) (Some 0)
        (initialState (Token_new 1 (Finite 0)) (addResource ''A'' 3 (Finite 10) ProcessContext_new))
       = forEach (execute 4 (forkJoinElements [Finite 10, Finite 20, Finite 30]))
           [Some 3, Some 4, Some 5]
           (initialState (Token_new 1 (Finite 0))
              (addResource ''A'' 3 (Finite 10) ProcessContext_new))
   \<and> deref (forkJoinElements [Finite 10, Finite 20, Finite 30]) (Some 1)
       = Some (ParallelGatewayE (connectTo (Some 2) (ParallelGateway_new ''join'' ''Join'' False)))
   \<and> execute (Suc 4) (forkJoinElements [Finite 10, Finite 20, Finite 30]) (Some 1)
        (initialState (Token_new 1 (Finite 0)) (addResource ''A'' 3 (Finite 10) ProcessContext_new))
       = execute 4 (forkJoinElements [Finite 10, Finite 20, Finite 30]) (Some 2)
           (initialState (Token_new 1 (Finite 0))
              (addResource ''A'' 3 (Finite 10) ProcessContext_new))
   \<and> getResource (addResource ''A'' 3 (Finite 10) ProcessContext_new) ''A'' \<noteq> None
   \<and> countsInv (addResource ''A'' 3 (Finite 10) ProcessContext_new)
   \<and> tokensCompleted (addResource ''A'' 3 (Finite 10) ProcessContext_new)
        + int (length [Finite 10, Finite 20, Finite 30]) \<le> INT_MAX
   \<and> (4::nat) \<le> 4
   \<and> foldl dadd (Finite 0) [Finite 10, Finite 20, Finite 30] = Finite 60
   \<and> (\<exists>s'. execute 4 (forkJoinElements [Finite 10, Finite 20, Finite 30]) (Some 0)
              (initialState (Token_new 1 (Finite 0))
                 (addResource ''A'' 3 (Finite 10) ProcessContext_new)) = Inr s'
          \<and> currentTime (tok s') = Finite 60 \<and> completed (tok s') \<and> endReason (tok s') = ''Done''
          \<and> tokensCompleted (ctx s') = 3
          \<and> reasonCount (endReasons (ctx s')) ''Done'' = 3)"
proof -
  let ?ds = "[Finite 10, Finite 20, Finite 30]"
  let ?es = "forkJoinElements ?ds"
  let ?s = "initialState (Token_new 1 (Finite 0)) (addResource ''A'' 3 (Finite 10) ProcessContext_new)"
  let ?fork = "(ParallelGateway_new ''fork'' ''Fork'' True)\<lparr>getOutgoing := [Some 3, Some 4, Some 5]\<rparr>"
  let ?join = "connectTo (Some 2) (ParallelGateway_new ''join'' ''Join'' False)"
  have d0: "deref ?es (Some 0) = Some (ParallelGatewayE ?fork)"
    by (simp add: deref_def forkJoinElements_def)
  have d1: "deref ?es (Some 1) = Some (ParallelGatewayE ?join)"
    by (simp add: deref_def forkJoinElements_def)
  have f: "isDivergence ?fork" "getOutgoing ?fork = [Some 3, Some 4, Some 5]"
    by (simp_all add: ParallelGateway_new_def)
  have j: "\<not> isDivergence ?join" "getOutgoing ?join \<noteq> []" "getOutgoing ?join ! 0 = Some 2"
    by (simp_all add: ParallelGateway_new_def connectTo_def)
  have pre: "getResource (ctx ?s) ''A'' \<noteq> None" "countsInv (ctx ?s)"
    "tokensCompleted (ctx ?s) + int (length ?ds) \<le> INT_MAX" "(4::nat) \<le> 4"
    by (simp_all add: initialState_def getResource_def addResource_def ProcessContext_new_def
        countsInv_def histogramTotal_def INT_MAX_def)
  have cx: "ctx ?s = addResource ''A'' 3 (Finite 10) ProcessContext_new"
    by (simp add: initialState_def)
  have sum: "foldl dadd (Finite 0) ?ds = Finite 60"
    by (simp add: fl_numeral)
  have c: "currentTime (tok ?s) = Finite 0" "tokensCompleted (ctx ?s) = 0"
    "reasonCount (endReasons (ctx ?s)) ''Done'' = 0"
    by (simp_all add: initialState_def Token_new_def addResource_def ProcessContext_new_def
        reasonCount_def)
  from parallel_gateway_sequential [of ?es "Some 0" ?fork 4 ?s ?ds] d0 f pre
  have a: "execute (Suc 4) ?es (Some 0) ?s = forEach (execute 4 ?es) [Some 3, Some 4, Some 5] ?s"
    and b: "\<exists>s'. execute 4 ?es (Some 0) ?s = Inr s'
          \<and> currentTime (tok s') = Finite 60 \<and> completed (tok s') \<and> endReason (tok s') = ''Done''
          \<and> tokensCompleted (ctx s') = 3
          \<and> reasonCount (endReasons (ctx s')) ''Done'' = 3"
    by (simp_all add: c fl_numeral)
  from parallel_gateway_sequential [of ?es "Some 1" ?join 4 ?s ?ds] d1 j
  have e: "execute (Suc 4) ?es (Some 1) ?s = execute 4 ?es (Some 2) ?s"
    by simp
  from d0 a d1 e pre sum b show ?thesis by (simp add: cx)
qed

end
